theory Spec2Isabelle
  imports Main "HOL-Library.Char_ord" "HOL-Library.List_Lexorder" "HOL-Library.AList"
begin

section \<open>Python values used by zato.server.apispec\<close>

text \<open>
  The module declares \<open>unicode_literals\<close>, so its string literals and everything built
  from them with \<open>format\<close> are unicode objects. Strings are modelled as \<^typ>\<open>string\<close>
  (code points below 256); \<open>splitlines\<close>, \<open>strip\<close> and \<open>rstrip\<close> follow the unicode
  methods of Python 2.7 on that range. Strings are ordered by code point, a proper
  prefix before its extensions, as Python compares them.
\<close>

datatype error = IndexError | KeyError | UnicodeDecodeError | AttributeError | TypeError

definition then_do :: "error + 'a \<Rightarrow> ('a \<Rightarrow> error + 'b) \<Rightarrow> error + 'b" where
  "then_do m f = (case m of Inl e \<Rightarrow> Inl e | Inr v \<Rightarrow> f v)"

text \<open>\<open>xs[0]\<close> and \<open>s[-1]\<close>: both raise IndexError on an empty sequence.\<close>

definition item0 :: "'a list \<Rightarrow> error + 'a" where
  "item0 xs = (case xs of [] \<Rightarrow> Inl IndexError | x # _ \<Rightarrow> Inr x)"

definition item_last :: "'a list \<Rightarrow> error + 'a" where
  "item_last xs = (if xs = [] then Inl IndexError else Inr (last xs))"

definition LF :: char where "LF = CHR 0x0A"
definition CR :: char where "CR = CHR 0x0D"
definition dquote :: char where "dquote = CHR 0x22"

text \<open>Line boundaries of \<open>unicode.splitlines\<close> and the characters of \<open>unicode.isspace\<close>.\<close>

definition is_linebreak :: "char \<Rightarrow> bool" where
  "is_linebreak c = (c \<in> set [CHR 0x0A, CHR 0x0B, CHR 0x0C, CHR 0x0D, CHR 0x1C, CHR 0x1D, CHR 0x1E, CHR 0x85])"

definition is_space :: "char \<Rightarrow> bool" where
  "is_space c = (c \<in> set [CHR 0x09, CHR 0x0A, CHR 0x0B, CHR 0x0C, CHR 0x0D, CHR 0x1C, CHR 0x1D,
                           CHR 0x1E, CHR 0x1F, CHR 0x20, CHR 0x85, CHR 0xA0])"

text \<open>
  \<open>s.splitlines()\<close>: \<open>cur\<close> is the line read so far. A carriage return followed by a
  line feed is one boundary; a boundary at the very end opens no further line.
\<close>

fun splitlines_from :: "string \<Rightarrow> string \<Rightarrow> string list" where
  "splitlines_from cur [] = (if cur = [] then [] else [cur])"
| "splitlines_from cur [c] = (if is_linebreak c then [cur] else [cur @ [c]])"
| "splitlines_from cur (c # d # s) =
     (if c = CR \<and> d = LF then cur # splitlines_from [] s
      else if is_linebreak c then cur # splitlines_from [] (d # s)
      else splitlines_from (cur @ [c]) (d # s))"

definition splitlines :: "string \<Rightarrow> string list" where
  "splitlines s = splitlines_from [] s"

text \<open>\<open>sep.join(xs)\<close>.\<close>

fun join :: "string \<Rightarrow> string list \<Rightarrow> string" where
  "join sep [] = []"
| "join sep [x] = x"
| "join sep (x # y # xs) = x @ sep @ join sep (y # xs)"

text \<open>\<open>s.lstrip(chars)\<close>, \<open>s.rstrip(chars)\<close>, \<open>s.strip()\<close>, \<open>s.rstrip()\<close>, \<open>s.startswith(p)\<close>.\<close>

definition lstrip_chars :: "string \<Rightarrow> string \<Rightarrow> string" where
  "lstrip_chars chars s = dropWhile (\<lambda>c. c \<in> set chars) s"

definition rstrip_chars :: "string \<Rightarrow> string \<Rightarrow> string" where
  "rstrip_chars chars s = rev (dropWhile (\<lambda>c. c \<in> set chars) (rev s))"

definition rstrip :: "string \<Rightarrow> string" where
  "rstrip s = rev (dropWhile is_space (rev s))"

definition strip :: "string \<Rightarrow> string" where
  "strip s = rstrip (dropWhile is_space s)"

definition startswith :: "string \<Rightarrow> string \<Rightarrow> bool" where
  "startswith s p = (take (length p) s = p)"

section \<open>Declarations read from a service class\<close>

text \<open>
  A SimpleIO parameter is either a plain string, which is its own name, or an element
  object carrying a \<open>name\<close>. \<open>AsIs_class\<close> stands for \<open>AsIs\<close> and its subclasses (what
  \<open>isinstance(param, AsIs)\<close> accepts), \<open>Elem_class\<close> for any other element class.
\<close>

datatype pyclass = Basestring_class | AsIs_class | Elem_class string

datatype param = Param (param_class: pyclass) (param_text: string)

type_synonym type_info = "string \<times> string"

text \<open>One entry of \<open>SIO_TYPE_MAP\<close>.\<close>

record api_spec_info =
  asi_name :: string
  asi_DEFAULT :: type_info
  asi_BOOLEAN :: type_info
  asi_INTEGER :: type_info
  asi_map :: "pyclass \<Rightarrow> type_info option"

text \<open>
  What the module imports and calls but does not define: docformatter's
  \<open>format_docstring\<close> (with the fixed arguments of the call site), and \<open>is_bool\<close>,
  \<open>is_int\<close> and \<open>SIO_TYPE_MAP\<close> of the SimpleIO package (with the \<open>SIMPLE_IO\<close> constants
  of the call sites). They are parameters of the model: total functions, about which
  nothing else is assumed.
\<close>

record env =
  format_docstring :: "string \<Rightarrow> string"
  is_bool :: "param \<Rightarrow> string \<Rightarrow> bool"
  is_int :: "string \<Rightarrow> bool"
  SIO_TYPE_MAP :: "api_spec_info list"

text \<open>
  The class attribute \<open>invokes\<close>: missing or None, a string, a list or tuple of names,
  or a value of any other type (with its truth value).
\<close>

datatype invokes_decl = No_invokes | Invokes_str string | Invokes_seq "string list" | Invokes_other bool

record sio_decl =
  sio_request_elem :: "string option"
  sio_response_elem :: "string option"
  sio_input_required :: "param list"
  sio_output_required :: "param list"
  sio_input_optional :: "param list"
  sio_output_optional :: "param list"

record service_class =
  cls_invokes :: invokes_decl
  cls_SimpleIO :: "sio_decl option"
  cls_doc :: "string option"

section \<open>Config, Docstring, SimpleIO\<close>

record Config =
  is_module_level :: bool
  ns :: string
  cfg_services :: "string list"

definition Config_init :: Config where
  "Config_init = \<lparr>is_module_level = True, ns = [], cfg_services = []\<rparr>"

record Docstring =
  summary :: string
  description :: string
  full :: string

definition Docstring_init :: Docstring where
  "Docstring_init = \<lparr>summary = [], description = [], full = []\<rparr>"

record param_info =
  pi_name :: string
  pi_type :: string
  pi_subtype :: string

record SimpleIO =
  input_required :: "param_info list"
  output_required :: "param_info list"
  input_optional :: "param_info list"
  output_optional :: "param_info list"
  request_elem :: "string option"
  response_elem :: "string option"
  spec_name :: string

section \<open>ServiceInfo\<close>

record ServiceInfo =
  si_name :: string
  si_service_class :: service_class
  si_config :: Config
  si_simple_io :: "(string \<times> SimpleIO) list"
  si_docstring :: Docstring
  si_invokes :: "string list"
  si_invoked_by :: "string list"

text \<open>\<open>_add_services_from_invokes\<close>: an empty string and an empty sequence are falsy.\<close>

definition add_services_from_invokes :: "ServiceInfo \<Rightarrow> ServiceInfo" where
  "add_services_from_invokes self =
     (case cls_invokes (si_service_class self) of
        No_invokes \<Rightarrow> self
      | Invokes_str s \<Rightarrow>
          (if s \<noteq> [] then self\<lparr>si_invokes := si_invokes self @ [s]\<rparr> else self)
      | Invokes_seq xs \<Rightarrow>
          (if xs \<noteq> [] then self\<lparr>si_invokes := si_invokes self @ xs\<rparr> else self)
      | Invokes_other _ \<Rightarrow> self)"

text \<open>
  The classification of one parameter in \<open>_add_simple_io\<close>: the \<open>if\<close>/\<open>elif\<close> chain in
  the source's order, the KeyError of the type map caught as in the source.
\<close>

definition param_type_info :: "env \<Rightarrow> api_spec_info \<Rightarrow> param \<Rightarrow> type_info" where
  "param_type_info e asi p =
     (let param_name = param_text p in
      if param_class p = AsIs_class then asi_DEFAULT asi
      else if is_bool e p param_name then asi_BOOLEAN asi
      else if is_int e param_name then asi_INTEGER asi
      else (case asi_map asi (param_class p) of
              Some type_info \<Rightarrow> type_info
            | None \<Rightarrow> asi_DEFAULT asi))"

definition make_param_info :: "env \<Rightarrow> api_spec_info \<Rightarrow> param \<Rightarrow> param_info" where
  "make_param_info e asi p =
     (let type_info = param_type_info e asi p in
      \<lparr>pi_name = param_text p, pi_type = fst type_info, pi_subtype = snd type_info\<rparr>)"

text \<open>The body of the loop over \<open>SIO_TYPE_MAP\<close>, with \<open>SimpleIO(...).to_bunch()\<close>.\<close>

definition sio_for :: "env \<Rightarrow> sio_decl \<Rightarrow> api_spec_info \<Rightarrow> SimpleIO" where
  "sio_for e sio asi =
     \<lparr>input_required = map (make_param_info e asi) (sio_input_required sio),
      output_required = map (make_param_info e asi) (sio_output_required sio),
      input_optional = map (make_param_info e asi) (sio_input_optional sio),
      output_optional = map (make_param_info e asi) (sio_output_optional sio),
      request_elem = sio_request_elem sio,
      response_elem = sio_response_elem sio,
      spec_name = asi_name asi\<rparr>"

fun add_dialects :: "env \<Rightarrow> sio_decl \<Rightarrow> api_spec_info list \<Rightarrow> (string \<times> SimpleIO) list \<Rightarrow> (string \<times> SimpleIO) list" where
  "add_dialects e sio [] simple_io = simple_io"
| "add_dialects e sio (asi # rest) simple_io =
     add_dialects e sio rest (AList.update (asi_name asi) (sio_for e sio asi) simple_io)"

definition add_simple_io :: "env \<Rightarrow> ServiceInfo \<Rightarrow> ServiceInfo" where
  "add_simple_io e self =
     (case cls_SimpleIO (si_service_class self) of
        None \<Rightarrow> self
      | Some sio \<Rightarrow> self\<lparr>si_simple_io := add_dialects e sio (SIO_TYPE_MAP e) (si_simple_io self)\<rparr>)"

definition set_config :: "env \<Rightarrow> ServiceInfo \<Rightarrow> ServiceInfo" where
  "set_config e self = add_simple_io e (add_services_from_invokes self)"

text \<open>
  \<open>set_summary_desc\<close>. Every subscript of the source is a step that can raise:
  \<open>split[0]\<close>, \<open>full_docstring[-1]\<close>, \<open>description[-1]\<close>, \<open>summary[-1]\<close>; \<open>and\<close> evaluates
  its right operand only when the left one is true.
\<close>

definition set_summary_desc :: "env \<Rightarrow> ServiceInfo \<Rightarrow> error + ServiceInfo" where
  "set_summary_desc e self =
     (case cls_doc (si_service_class self) of
        None \<Rightarrow> Inr self
      | Some doc0 \<Rightarrow>
          if doc0 = [] then Inr self
          else
            (let split = splitlines doc0 in
             then_do (item0 split) (\<lambda>summary.
             let doc = (if length split > 1 then join [LF] (summary # [] # drop 1 split) else doc0);
                 full_docstring0 = format_docstring e ([dquote] @ doc @ [dquote]);
                 full_docstring1 = rstrip_chars [dquote, dquote, dquote]
                                     (lstrip_chars [dquote, dquote, dquote] full_docstring0);
                 lines = splitlines full_docstring1;
                 description = (if length lines > 1 \<and> lines ! 1 = [] then join [LF] (drop 2 lines)
                                else [])
             in
             then_do
               (if full_docstring1 \<noteq> [] then
                  then_do
                    (if description \<noteq> [] then
                       then_do (item_last full_docstring1) (\<lambda>c.
                         if c = CHR ''.'' then
                           then_do (item_last description) (\<lambda>d.
                             Inr (if c \<noteq> d then butlast full_docstring1 else full_docstring1))
                         else Inr full_docstring1)
                     else Inr full_docstring1)
                    (\<lambda>full_docstring2.
                       if summary \<noteq> [] then
                         then_do (item_last full_docstring2) (\<lambda>c.
                           if c = CHR ''.'' then
                             then_do (item_last summary) (\<lambda>d.
                               Inr (if c \<noteq> d then butlast full_docstring2 else full_docstring2))
                           else Inr full_docstring2)
                       else Inr full_docstring2)
                else Inr full_docstring1)
               (\<lambda>full_docstring.
                  Inr (self\<lparr>si_docstring :=
                         \<lparr>summary = strip summary,
                          description = description,
                          full = rstrip full_docstring\<rparr>\<rparr>)))))"

text \<open>\<open>ServiceInfo.parse\<close> and \<open>ServiceInfo.__init__\<close>.\<close>

definition ServiceInfo_parse :: "env \<Rightarrow> ServiceInfo \<Rightarrow> error + ServiceInfo" where
  "ServiceInfo_parse e self = set_summary_desc e (set_config e self)"

definition ServiceInfo_init :: "env \<Rightarrow> string \<Rightarrow> service_class \<Rightarrow> error + ServiceInfo" where
  "ServiceInfo_init e name cls =
     ServiceInfo_parse e
       \<lparr>si_name = name, si_service_class = cls, si_config = Config_init, si_simple_io = [],
        si_docstring = Docstring_init, si_invokes = [], si_invoked_by = []\<rparr>"

section \<open>Generator\<close>

text \<open>
  A registry entry: the value stored under an implementation name, with its keys
  \<open>name\<close> and \<open>service_class\<close>. The registry is the list of its items in the order in
  which \<open>iteritems\<close> yields them.

  A dict is an association list: assigning to a key that is present replaces its value
  in place, assigning to a new key adds it at the end (\<^const>\<open>AList.update\<close>), and
  iteration follows the list. Python leaves the iteration order of a dict open; every
  sequence that \<open>get_info\<close> returns is sorted before it is returned.
\<close>

record details =
  d_name :: string
  d_service_class :: service_class

record Generator =
  service_store_services :: "(string \<times> details) list"
  filter' :: "string option"
  services :: "(string \<times> ServiceInfo) list"
  invokes :: "(string \<times> string list) list"
  invoked_by :: "(string \<times> string list) list"

definition Generator_init :: "(string \<times> details) list \<Rightarrow> string option \<Rightarrow> Generator" where
  "Generator_init store flt =
     \<lparr>service_store_services = store, filter' = flt,
      services = [], invokes = [], invoked_by = []\<rparr>"

text \<open>The first loop of \<open>parse\<close>: one ServiceInfo per entry that is not ignored.\<close>

fun parse_services :: "env \<Rightarrow> string \<Rightarrow> (string \<times> details) list \<Rightarrow> (string \<times> ServiceInfo) list
    \<Rightarrow> error + (string \<times> ServiceInfo) list" where
  "parse_services e ignore_prefix [] svcs = Inr svcs"
| "parse_services e ignore_prefix ((impl_name, det) # rest) svcs =
     (if \<not> startswith impl_name ignore_prefix then
        then_do (ServiceInfo_init e (d_name det) (d_service_class det)) (\<lambda>info.
          parse_services e ignore_prefix rest (AList.update (si_name info) info svcs))
      else parse_services e ignore_prefix rest svcs)"

text \<open>The second loop: \<open>self.invokes[name] = info.invokes\<close>.\<close>

fun parse_invokes :: "(string \<times> ServiceInfo) list \<Rightarrow> (string \<times> string list) list
    \<Rightarrow> (string \<times> string list) list" where
  "parse_invokes [] invs = invs"
| "parse_invokes ((name, info) # rest) invs =
     parse_invokes rest (AList.update name (si_invokes info) invs)"

text \<open>
  The third loop. \<open>setdefault(target, [])\<close> followed by \<open>append(source)\<close> extends the
  list stored under \<open>target\<close>, which is first created empty when the key is new.
\<close>

definition setdefault_append :: "string \<Rightarrow> string \<Rightarrow> (string \<times> string list) list
    \<Rightarrow> (string \<times> string list) list" where
  "setdefault_append target source ib =
     (case map_of ib target of
        None \<Rightarrow> AList.update target [source] ib
      | Some sources \<Rightarrow> AList.update target (sources @ [source]) ib)"

fun parse_targets :: "string \<Rightarrow> string list \<Rightarrow> (string \<times> string list) list
    \<Rightarrow> (string \<times> string list) list" where
  "parse_targets source [] ib = ib"
| "parse_targets source (target # targets) ib =
     parse_targets source targets (setdefault_append target source ib)"

fun parse_invoked_by :: "(string \<times> string list) list \<Rightarrow> (string \<times> string list) list
    \<Rightarrow> (string \<times> string list) list" where
  "parse_invoked_by [] ib = ib"
| "parse_invoked_by ((source, targets) # rest) ib =
     parse_invoked_by rest (parse_targets source targets ib)"

text \<open>The last loop: \<open>info.invoked_by = self.invoked_by.get(name, [])\<close>.\<close>

definition assign_invoked_by :: "(string \<times> string list) list \<Rightarrow> (string \<times> ServiceInfo) list
    \<Rightarrow> (string \<times> ServiceInfo) list" where
  "assign_invoked_by ib svcs =
     map (\<lambda>(name, info).
            (name, info\<lparr>si_invoked_by := (case map_of ib name of Some xs \<Rightarrow> xs | None \<Rightarrow> [])\<rparr>))
         svcs"

definition parse :: "env \<Rightarrow> Generator \<Rightarrow> string \<Rightarrow> error + Generator" where
  "parse e self ignore_prefix =
     then_do (parse_services e ignore_prefix (service_store_services self) (services self))
       (\<lambda>svcs.
          let invs = parse_invokes svcs (invokes self);
              ib = parse_invoked_by invs (invoked_by self)
          in Inr (self\<lparr>services := assign_invoked_by ib svcs, invokes := invs, invoked_by := ib\<rparr>))"

text \<open>One record of the output of \<open>get_info\<close>, after \<open>toDict\<close>.\<close>

record item =
  item_name :: string
  item_docs :: Docstring
  item_invokes :: "string list"
  item_invoked_by :: "string list"
  item_simple_io :: "(string \<times> SimpleIO) list"

definition make_item :: "ServiceInfo \<Rightarrow> item" where
  "make_item info =
     \<lparr>item_name = si_name info,
      item_docs = \<lparr>summary = summary (si_docstring info),
                   description = description (si_docstring info),
                   full = full (si_docstring info)\<rparr>,
      item_invokes = sort (si_invokes info),
      item_invoked_by = sort (si_invoked_by info),
      item_simple_io = si_simple_io info\<rparr>"

text \<open>\<open>self.filter and name != self.filter\<close>: None and the empty string are falsy.\<close>

definition filtered_out :: "string option \<Rightarrow> string \<Rightarrow> bool" where
  "filtered_out flt name =
     (case flt of None \<Rightarrow> False | Some f \<Rightarrow> f \<noteq> [] \<and> name \<noteq> f)"

text \<open>The loop of \<open>get_info\<close>; \<open>self.services[name]\<close> raises KeyError on a missing key.\<close>

fun collect_items :: "Generator \<Rightarrow> string list \<Rightarrow> item list \<Rightarrow> error + item list" where
  "collect_items self [] out = Inr out"
| "collect_items self (name # names) out =
     (if filtered_out (filter' self) name then collect_items self names out
      else (case map_of (services self) name of
              None \<Rightarrow> Inl KeyError
            | Some info \<Rightarrow> collect_items self names (out @ [make_item info])))"

text \<open>\<open>get_info\<close> returns its list together with the Generator as the call leaves it.\<close>

definition get_info :: "env \<Rightarrow> Generator \<Rightarrow> string \<Rightarrow> error + (item list \<times> Generator)" where
  "get_info e self ignore_prefix =
     then_do (parse e self ignore_prefix) (\<lambda>self'.
       then_do (collect_items self' (sort (map fst (services self'))) [])
         (\<lambda>out. Inr (out, self')))"

section \<open>Class attributes of any shape\<close>

text \<open>
  The sections above read the attributes of a service class at the types the module
  expects: a unicode docstring, parameter groups that are sequences of strings or of
  named elements. Python does not enforce these types. This section follows the same
  lines of \<open>ServiceInfo\<close> for what a class can hold instead, so that the steps of the
  source that raise on such values are steps of the model:
  \<^item> \<open>__doc__\<close> is a unicode object or a byte string (\<open>str\<close>, the type of a docstring
    in a module without \<open>unicode_literals\<close>). A byte string is split and stripped by the
    \<open>str\<close> methods. Where it meets a unicode object, in \<open>'\n'.join(_doc)\<close> and in
    \<open>'"{}"'.format(doc)\<close>, Python decodes it as ASCII and raises UnicodeDecodeError on
    a byte from 128 on;
  \<^item> a parameter group need not be iterable (\<open>for param in param_list\<close> raises
    TypeError), and a parameter that is not a string need not have a \<open>name\<close>
    (\<open>param.name\<close> raises AttributeError).
\<close>

datatype pystr = Unicode string | Str string

definition chars :: "pystr \<Rightarrow> string" where
  "chars v = (case v of Unicode s \<Rightarrow> s | Str s \<Rightarrow> s)"

definition is_ascii :: "string \<Rightarrow> bool" where
  "is_ascii s = list_all (\<lambda>c. (of_char c :: nat) < 128) s"

text \<open>The implicit conversion of a value to unicode.\<close>

definition to_unicode :: "pystr \<Rightarrow> error + string" where
  "to_unicode v =
     (case v of
        Unicode s \<Rightarrow> Inr s
      | Str s \<Rightarrow> (if is_ascii s then Inr s else Inl UnicodeDecodeError))"

text \<open>\<open>sep.join(vs)\<close> for a unicode \<open>sep\<close>: the items are converted in turn.\<close>

fun all_to_unicode :: "pystr list \<Rightarrow> error + string list" where
  "all_to_unicode [] = Inr []"
| "all_to_unicode (v # vs) =
     then_do (to_unicode v) (\<lambda>s. then_do (all_to_unicode vs) (\<lambda>ss. Inr (s # ss)))"

definition unicode_join :: "string \<Rightarrow> pystr list \<Rightarrow> error + string" where
  "unicode_join sep vs = then_do (all_to_unicode vs) (\<lambda>ss. Inr (join sep ss))"

text \<open>\<open>str.splitlines\<close> knows the line feed and the carriage return only.\<close>

fun str_splitlines_from :: "string \<Rightarrow> string \<Rightarrow> string list" where
  "str_splitlines_from cur [] = (if cur = [] then [] else [cur])"
| "str_splitlines_from cur [c] = (if c = LF \<or> c = CR then [cur] else [cur @ [c]])"
| "str_splitlines_from cur (c # d # s) =
     (if c = CR \<and> d = LF then cur # str_splitlines_from [] s
      else if c = LF \<or> c = CR then cur # str_splitlines_from [] (d # s)
      else str_splitlines_from (cur @ [c]) (d # s))"

definition str_splitlines :: "string \<Rightarrow> string list" where
  "str_splitlines s = str_splitlines_from [] s"

text \<open>\<open>str.strip()\<close> removes the six ASCII whitespace characters.\<close>

definition is_space_str :: "char \<Rightarrow> bool" where
  "is_space_str c = (c \<in> set [CHR 0x09, CHR 0x0A, CHR 0x0B, CHR 0x0C, CHR 0x0D, CHR 0x20])"

definition str_strip :: "string \<Rightarrow> string" where
  "str_strip s = rev (dropWhile is_space_str (rev (dropWhile is_space_str s)))"

definition py_splitlines :: "pystr \<Rightarrow> pystr list" where
  "py_splitlines v =
     (case v of Unicode s \<Rightarrow> map Unicode (splitlines s) | Str s \<Rightarrow> map Str (str_splitlines s))"

definition py_strip :: "pystr \<Rightarrow> pystr" where
  "py_strip v = (case v of Unicode s \<Rightarrow> Unicode (strip s) | Str s \<Rightarrow> Str (str_strip s))"

text \<open>
  A parameter is a string or a named element (\<open>Named\<close>), or an object without a \<open>name\<close>;
  the value of a group attribute is iterable or not. A group that the class does not
  declare is the empty list of \<open>getattr\<close>.
\<close>

datatype param_decl = Named param | Nameless

datatype group_decl = Iterable "param_decl list" | Not_iterable

record sio_attrs =
  at_request_elem :: "string option"
  at_response_elem :: "string option"
  at_input_required :: group_decl
  at_output_required :: group_decl
  at_input_optional :: group_decl
  at_output_optional :: group_decl

record class_attrs =
  at_invokes :: invokes_decl
  at_SimpleIO :: "sio_attrs option"
  at_doc :: "pystr option"

record ServiceInfo_dyn =
  dy_name :: string
  dy_service_class :: class_attrs
  dy_config :: Config
  dy_simple_io :: "(string \<times> SimpleIO) list"
  dy_docstring :: Docstring
  dy_invokes :: "string list"
  dy_invoked_by :: "string list"

definition add_services_from_invokes_dyn :: "ServiceInfo_dyn \<Rightarrow> ServiceInfo_dyn" where
  "add_services_from_invokes_dyn self =
     (case at_invokes (dy_service_class self) of
        No_invokes \<Rightarrow> self
      | Invokes_str s \<Rightarrow>
          (if s \<noteq> [] then self\<lparr>dy_invokes := dy_invokes self @ [s]\<rparr> else self)
      | Invokes_seq xs \<Rightarrow>
          (if xs \<noteq> [] then self\<lparr>dy_invokes := dy_invokes self @ xs\<rparr> else self)
      | Invokes_other _ \<Rightarrow> self)"

text \<open>
  The loop over one group, with \<open>_param_list\<close> as accumulator; it stops at the first
  parameter without a name.
\<close>

fun param_list_dyn :: "env \<Rightarrow> api_spec_info \<Rightarrow> param_decl list \<Rightarrow> param_info list
    \<Rightarrow> error + param_info list" where
  "param_list_dyn e asi [] acc = Inr acc"
| "param_list_dyn e asi (Nameless # rest) acc = Inl AttributeError"
| "param_list_dyn e asi (Named p # rest) acc =
     param_list_dyn e asi rest (acc @ [make_param_info e asi p])"

definition group_dyn :: "env \<Rightarrow> api_spec_info \<Rightarrow> group_decl \<Rightarrow> error + param_info list" where
  "group_dyn e asi g =
     (case g of Not_iterable \<Rightarrow> Inl TypeError | Iterable ps \<Rightarrow> param_list_dyn e asi ps [])"

text \<open>The four groups are read in the order of \<open>_sio_attrs\<close>.\<close>

definition sio_for_dyn :: "env \<Rightarrow> sio_attrs \<Rightarrow> api_spec_info \<Rightarrow> error + SimpleIO" where
  "sio_for_dyn e sio asi =
     then_do (group_dyn e asi (at_input_required sio)) (\<lambda>ir.
     then_do (group_dyn e asi (at_output_required sio)) (\<lambda>orq.
     then_do (group_dyn e asi (at_input_optional sio)) (\<lambda>io.
     then_do (group_dyn e asi (at_output_optional sio)) (\<lambda>oo.
       Inr \<lparr>input_required = ir, output_required = orq, input_optional = io,
            output_optional = oo, request_elem = at_request_elem sio,
            response_elem = at_response_elem sio, spec_name = asi_name asi\<rparr>))))"

fun add_dialects_dyn :: "env \<Rightarrow> sio_attrs \<Rightarrow> api_spec_info list \<Rightarrow> (string \<times> SimpleIO) list
    \<Rightarrow> error + (string \<times> SimpleIO) list" where
  "add_dialects_dyn e sio [] simple_io = Inr simple_io"
| "add_dialects_dyn e sio (asi # rest) simple_io =
     then_do (sio_for_dyn e sio asi) (\<lambda>bunch.
       add_dialects_dyn e sio rest (AList.update (asi_name asi) bunch simple_io))"

definition add_simple_io_dyn :: "env \<Rightarrow> ServiceInfo_dyn \<Rightarrow> error + ServiceInfo_dyn" where
  "add_simple_io_dyn e self =
     (case at_SimpleIO (dy_service_class self) of
        None \<Rightarrow> Inr self
      | Some sio \<Rightarrow>
          then_do (add_dialects_dyn e sio (SIO_TYPE_MAP e) (dy_simple_io self)) (\<lambda>simple_io.
            Inr (self\<lparr>dy_simple_io := simple_io\<rparr>)))"

definition set_config_dyn :: "env \<Rightarrow> ServiceInfo_dyn \<Rightarrow> error + ServiceInfo_dyn" where
  "set_config_dyn e self = add_simple_io_dyn e (add_services_from_invokes_dyn self)"

text \<open>
  \<open>set_summary_desc\<close>: \<open>summary\<close> keeps the type of the docstring, \<open>doc\<close> is unicode once
  it has been joined, and everything after \<open>format\<close> is unicode.
\<close>

definition set_summary_desc_dyn :: "env \<Rightarrow> ServiceInfo_dyn \<Rightarrow> error + ServiceInfo_dyn" where
  "set_summary_desc_dyn e self =
     (case at_doc (dy_service_class self) of
        None \<Rightarrow> Inr self
      | Some doc0 \<Rightarrow>
          if chars doc0 = [] then Inr self
          else
            (let split = py_splitlines doc0 in
             then_do (item0 split) (\<lambda>summary.
             then_do (if length split > 1
                      then then_do (unicode_join [LF] (summary # Unicode [] # drop 1 split))
                             (\<lambda>joined. Inr (Unicode joined))
                      else Inr doc0) (\<lambda>doc.
             then_do (to_unicode doc) (\<lambda>doc_text.
             let full_docstring0 = format_docstring e ([dquote] @ doc_text @ [dquote]);
                 full_docstring1 = rstrip_chars [dquote, dquote, dquote]
                                     (lstrip_chars [dquote, dquote, dquote] full_docstring0);
                 lines = splitlines full_docstring1;
                 description = (if length lines > 1 \<and> lines ! 1 = [] then join [LF] (drop 2 lines)
                                else [])
             in
             then_do
               (if full_docstring1 \<noteq> [] then
                  then_do
                    (if description \<noteq> [] then
                       then_do (item_last full_docstring1) (\<lambda>c.
                         if c = CHR ''.'' then
                           then_do (item_last description) (\<lambda>d.
                             Inr (if c \<noteq> d then butlast full_docstring1 else full_docstring1))
                         else Inr full_docstring1)
                     else Inr full_docstring1)
                    (\<lambda>full_docstring2.
                       if chars summary \<noteq> [] then
                         then_do (item_last full_docstring2) (\<lambda>c.
                           if c = CHR ''.'' then
                             then_do (item_last (chars summary)) (\<lambda>d.
                               Inr (if c \<noteq> d then butlast full_docstring2 else full_docstring2))
                           else Inr full_docstring2)
                       else Inr full_docstring2)
                else Inr full_docstring1)
               (\<lambda>full_docstring.
                  Inr (self\<lparr>dy_docstring :=
                         \<lparr>summary = chars (py_strip summary),
                          description = description,
                          full = rstrip full_docstring\<rparr>\<rparr>)))))))"

definition ServiceInfo_parse_dyn :: "env \<Rightarrow> ServiceInfo_dyn \<Rightarrow> error + ServiceInfo_dyn" where
  "ServiceInfo_parse_dyn e self = then_do (set_config_dyn e self) (set_summary_desc_dyn e)"

definition ServiceInfo_init_dyn :: "env \<Rightarrow> string \<Rightarrow> class_attrs \<Rightarrow> error + ServiceInfo_dyn" where
  "ServiceInfo_init_dyn e name cls =
     ServiceInfo_parse_dyn e
       \<lparr>dy_name = name, dy_service_class = cls, dy_config = Config_init, dy_simple_io = [],
        dy_docstring = Docstring_init, dy_invokes = [], dy_invoked_by = []\<rparr>"

section \<open>Notions used to state the properties\<close>

text \<open>
  The text that \<open>set_summary_desc\<close> holds in \<open>full_docstring\<close> after stripping the quote
  characters and before the trailing-period step (the source's lines 161 to 174), as a
  function of the class's \<open>__doc__\<close>; an absent or empty docstring leaves \<open>full\<close> empty.
\<close>

definition normalized_full :: "env \<Rightarrow> string option \<Rightarrow> string" where
  "normalized_full e d =
     (case d of
        None \<Rightarrow> []
      | Some doc0 \<Rightarrow>
          if doc0 = [] then []
          else
            (let split = splitlines doc0;
                 doc = (if length split > 1 then join [LF] (take 1 split @ [] # drop 1 split) else doc0)
             in rstrip_chars [dquote, dquote, dquote]
                  (lstrip_chars [dquote, dquote, dquote] (format_docstring e ([dquote] @ doc @ [dquote])))))"

text \<open>The rule for \<open>description\<close>, in the words of the specification.\<close>

definition description_rule :: "string \<Rightarrow> string" where
  "description_rule text =
     (let lines = splitlines text in
      if length lines > 1 \<and> lines ! 1 = [] then join [LF] (drop 2 lines) else [])"

text \<open>
  One trailing-period check of \<open>set_summary_desc\<close>: the final period of \<open>t\<close> is dropped
  when \<open>other\<close> is not empty and ends in another character.
\<close>

definition drop_period :: "string \<Rightarrow> string \<Rightarrow> string" where
  "drop_period other t = (if other \<noteq> [] \<and> last t = CHR ''.'' \<and> last t \<noteq> last other then butlast t else t)"

text \<open>The list that \<open>_add_services_from_invokes\<close> adds for a declaration.\<close>

definition declared_invokes :: "invokes_decl \<Rightarrow> string list" where
  "declared_invokes d =
     (case d of
        No_invokes \<Rightarrow> []
      | Invokes_str s \<Rightarrow> (if s = [] then [] else [s])
      | Invokes_seq xs \<Rightarrow> xs
      | Invokes_other _ \<Rightarrow> [])"

text \<open>The registry entries that \<open>parse\<close> does not skip.\<close>

definition retained :: "string \<Rightarrow> (string \<times> details) list \<Rightarrow> (string \<times> details) list" where
  "retained ignore_prefix reg = filter (\<lambda>(impl_name, det). \<not> startswith impl_name ignore_prefix) reg"

text \<open>\<open>source\<close> is listed under \<open>target\<close> in an \<open>invoked_by\<close> dict.\<close>

definition has_edge :: "(string \<times> string list) list \<Rightarrow> string \<Rightarrow> string \<Rightarrow> bool" where
  "has_edge ib target source = (\<exists>xs. map_of ib target = Some xs \<and> source \<in> set xs)"

text \<open>
  The declarations on which nothing raises: a docstring that is absent, unicode, or a
  byte string of ASCII characters; groups that are iterable and hold strings and named
  elements only.
\<close>

definition readable_doc :: "pystr option \<Rightarrow> bool" where
  "readable_doc d =
     (case d of None \<Rightarrow> True | Some (Unicode s) \<Rightarrow> True | Some (Str s) \<Rightarrow> is_ascii s)"

definition named_group :: "group_decl \<Rightarrow> bool" where
  "named_group g = (case g of Not_iterable \<Rightarrow> False | Iterable ps \<Rightarrow> Nameless \<notin> set ps)"

definition named_groups :: "sio_attrs option \<Rightarrow> bool" where
  "named_groups s =
     (case s of
        None \<Rightarrow> True
      | Some sio \<Rightarrow> named_group (at_input_required sio) \<and> named_group (at_output_required sio) \<and>
                    named_group (at_input_optional sio) \<and> named_group (at_output_optional sio))"

text \<open>The typed declarations of the first sections, as class attributes.\<close>

definition sio_attrs_of :: "sio_decl \<Rightarrow> sio_attrs" where
  "sio_attrs_of sio =
     \<lparr>at_request_elem = sio_request_elem sio, at_response_elem = sio_response_elem sio,
      at_input_required = Iterable (map Named (sio_input_required sio)),
      at_output_required = Iterable (map Named (sio_output_required sio)),
      at_input_optional = Iterable (map Named (sio_input_optional sio)),
      at_output_optional = Iterable (map Named (sio_output_optional sio))\<rparr>"

definition attrs_of :: "service_class \<Rightarrow> class_attrs" where
  "attrs_of cls =
     \<lparr>at_invokes = cls_invokes cls, at_SimpleIO = map_option sio_attrs_of (cls_SimpleIO cls),
      at_doc = map_option Unicode (cls_doc cls)\<rparr>"

definition info_dyn_of :: "ServiceInfo \<Rightarrow> ServiceInfo_dyn" where
  "info_dyn_of info =
     \<lparr>dy_name = si_name info, dy_service_class = attrs_of (si_service_class info),
      dy_config = si_config info, dy_simple_io = si_simple_io info,
      dy_docstring = si_docstring info, dy_invokes = si_invokes info,
      dy_invoked_by = si_invoked_by info\<rparr>"

section \<open>Example data\<close>

text \<open>
  A stand-in for docformatter on one-line docstrings: it takes the text out of its
  quotes, trims it, ends it with a period and returns it between triple quotes. It
  instantiates the \<open>format_docstring\<close> parameter in examples only.
\<close>

definition example_format :: "string \<Rightarrow> string" where
  "example_format s =
     (let contents = strip (rstrip_chars [dquote] (lstrip_chars [dquote] s));
          normalized = (if contents = [] \<or> last contents = CHR ''.'' then contents else contents @ ''.'')
      in [dquote, dquote, dquote] @ normalized @ [dquote, dquote, dquote])"

definition example_dialect :: api_spec_info where
  "example_dialect =
     \<lparr>asi_name = ''zato'', asi_DEFAULT = (''string'', ''string''),
      asi_BOOLEAN = (''boolean'', ''boolean''), asi_INTEGER = (''integer'', ''int32''),
      asi_map = (\<lambda>c. None)\<rparr>"

text \<open>An environment in which every parameter name matches the boolean and the integer rule.\<close>

definition example_env :: env where
  "example_env =
     \<lparr>format_docstring = example_format, is_bool = (\<lambda>p n. True), is_int = (\<lambda>n. True),
      SIO_TYPE_MAP = [example_dialect]\<rparr>"

definition example_class :: "invokes_decl \<Rightarrow> string option \<Rightarrow> service_class" where
  "example_class decl doc = \<lparr>cls_invokes = decl, cls_SimpleIO = None, cls_doc = doc\<rparr>"

text \<open>
  A registry with two services outside the \<open>zato\<close> namespace and one inside it, which
  \<open>foo\<close> invokes.
\<close>

definition example_registry :: "(string \<times> details) list" where
  "example_registry =
     [(''pkg.Foo'', \<lparr>d_name = ''foo'', d_service_class = example_class (Invokes_seq [''bar'', ''zato.ping'']) None\<rparr>),
      (''pkg.Bar'', \<lparr>d_name = ''bar'', d_service_class = example_class No_invokes None\<rparr>),
      (''zato.Ping'', \<lparr>d_name = ''zato.ping'', d_service_class = example_class No_invokes None\<rparr>)]"

text \<open>Two consecutive calls of \<open>get_info\<close> on the same Generator, with the same argument.\<close>

definition get_info_twice :: "env \<Rightarrow> Generator \<Rightarrow> string \<Rightarrow> error + (item list \<times> item list)" where
  "get_info_twice e self ignore_prefix =
     then_do (get_info e self ignore_prefix) (\<lambda>(first, self').
       then_do (get_info e self' ignore_prefix) (\<lambda>(second, self'').
         Inr (first, second)))"

text \<open>The name and the two edge arrays of each record.\<close>

definition edges_view :: "item list \<Rightarrow> (string \<times> string list \<times> string list) list" where
  "edges_view out = map (\<lambda>r. (item_name r, item_invokes r, item_invoked_by r)) out"

text \<open>Class attributes for the examples: no \<open>invokes\<close>, one declared group.\<close>

definition example_attrs :: "sio_attrs option \<Rightarrow> pystr option \<Rightarrow> class_attrs" where
  "example_attrs sio doc = \<lparr>at_invokes = No_invokes, at_SimpleIO = sio, at_doc = doc\<rparr>"

definition example_sio :: "group_decl \<Rightarrow> sio_attrs" where
  "example_sio g =
     \<lparr>at_request_elem = None, at_response_elem = None, at_input_required = g,
      at_output_required = Iterable [], at_input_optional = Iterable [],
      at_output_optional = Iterable []\<rparr>"

section \<open>Auxiliary facts\<close>

subsection \<open>set_summary_desc\<close>

lemma splitlines_from_nonempty: "cur \<noteq> [] \<or> s \<noteq> [] \<Longrightarrow> splitlines_from cur s \<noteq> []"
  by (induction cur s rule: splitlines_from.induct) auto

lemma splitlines_nonempty: "s \<noteq> [] \<Longrightarrow> splitlines s \<noteq> []"
  by (simp add: splitlines_def splitlines_from_nonempty)

lemma splitlines_from_length:
  "length (splitlines_from cur s) \<le> length s + (if cur = [] then 0 else 1)"
  by (induction cur s rule: splitlines_from.induct) auto

lemma splitlines_length: "length (splitlines s) \<le> length s"
  using splitlines_from_length [of "[]" s] by (simp add: splitlines_def)

lemma description_rule_nonempty: "description_rule t \<noteq> [] \<Longrightarrow> 2 \<le> length t"
  using splitlines_length [of t] by (auto simp: description_rule_def Let_def split: if_splits)

lemma butlast_nonempty: "2 \<le> length t \<Longrightarrow> butlast t \<noteq> []"
  by (cases t) (auto split: if_splits)

lemma then_do_Inr: "then_do (Inr x) f = f x"
  by (simp add: then_do_def)

lemma item0_Cons: "item0 (x # xs) = Inr x"
  by (simp add: item0_def)

lemma description_raw_nonempty:
  "(if 1 < length (splitlines t) \<and> splitlines t ! 1 = [] then join [LF] (drop 2 (splitlines t)) else []) \<noteq> []
   \<Longrightarrow> butlast t \<noteq> []"
  using description_rule_nonempty [of t] butlast_nonempty [of t]
  by (simp add: description_rule_def Let_def)

lemma dedup_block:
  assumes "d \<noteq> [] \<Longrightarrow> butlast f1 \<noteq> []"
  shows "then_do
     (if f1 \<noteq> [] then
        then_do
          (if d \<noteq> [] then
             then_do (item_last f1) (\<lambda>c.
               if c = CHR ''.'' then
                 then_do (item_last d) (\<lambda>da. Inr (if c \<noteq> da then butlast f1 else f1))
               else Inr f1)
           else Inr f1)
          (\<lambda>f2.
             if s \<noteq> [] then
               then_do (item_last f2) (\<lambda>c.
                 if c = CHR ''.'' then
                   then_do (item_last s) (\<lambda>da. Inr (if c \<noteq> da then butlast f2 else f2))
                 else Inr f2)
             else Inr f2)
      else Inr f1) k
    = k (if f1 = [] then [] else drop_period s (drop_period d f1))"
  using assms by (auto simp: then_do_def item_last_def drop_period_def)

lemma set_summary_desc_Some:
  assumes "cls_doc (si_service_class self) = Some doc0" "doc0 \<noteq> []"
  shows "set_summary_desc e self =
     Inr (self\<lparr>si_docstring :=
        \<lparr>summary = strip (hd (splitlines doc0)),
         description = description_rule (normalized_full e (Some doc0)),
         full = rstrip (if normalized_full e (Some doc0) = [] then []
                        else drop_period (hd (splitlines doc0))
                              (drop_period (description_rule (normalized_full e (Some doc0)))
                                 (normalized_full e (Some doc0))))\<rparr>\<rparr>)"
proof -
  obtain l ls where sp: "splitlines doc0 = l # ls"
    using splitlines_nonempty [OF assms(2)] by (cases "splitlines doc0") auto
  define nf where "nf = normalized_full e (Some doc0)"
  have nf_raw: "rstrip_chars [dquote, dquote, dquote]
           (lstrip_chars [dquote, dquote, dquote]
             (format_docstring e
               ([dquote] @
                (if 1 < length (l # ls)
                 then join [LF] (l # [] # drop 1 (l # ls)) else doc0) @
                [dquote]))) = nf"
    by (simp add: nf_def normalized_full_def Let_def sp assms)
  have d_raw: "(if 1 < length (splitlines nf) \<and> splitlines nf ! 1 = []
                then join [LF] (drop 2 (splitlines nf)) else []) = description_rule nf"
    by (simp add: description_rule_def Let_def)
  have d2: "description_rule nf \<noteq> [] \<Longrightarrow> butlast nf \<noteq> []"
    by (rule butlast_nonempty [OF description_rule_nonempty])
  show ?thesis
    unfolding set_summary_desc_def nf_def [symmetric]
    apply (simp only: assms option.case if_False Let_def sp item0_Cons then_do_Inr)
    apply (simp only: nf_raw d_raw)
    apply (subst dedup_block)
     apply (erule d2)
    apply (simp only: list.sel)
    done
qed

lemma set_summary_desc_shape: "\<exists>d. set_summary_desc e self = Inr (self\<lparr>si_docstring := d\<rparr>)"
proof (cases "cls_doc (si_service_class self)")
  case None
  then have "set_summary_desc e self = Inr (self\<lparr>si_docstring := si_docstring self\<rparr>)"
    by (simp add: set_summary_desc_def)
  then show ?thesis by blast
next
  case (Some doc0)
  show ?thesis
  proof (cases "doc0 = []")
    case True
    with Some have "set_summary_desc e self = Inr (self\<lparr>si_docstring := si_docstring self\<rparr>)"
      by (simp add: set_summary_desc_def)
    then show ?thesis by blast
  next
    case False
    from set_summary_desc_Some [OF Some False] show ?thesis by blast
  qed
qed

subsection \<open>ServiceInfo construction\<close>

lemma set_config_fields:
  "si_name (set_config e self) = si_name self"
  "si_service_class (set_config e self) = si_service_class self"
  "si_invoked_by (set_config e self) = si_invoked_by self"
  "si_docstring (set_config e self) = si_docstring self"
  "si_invokes (set_config e self) = si_invokes self @ declared_invokes (cls_invokes (si_service_class self))"
  by (simp_all add: set_config_def add_simple_io_def add_services_from_invokes_def declared_invokes_def
      split: option.splits invokes_decl.splits)

lemma ServiceInfo_init_Inr:
  "\<exists>info. ServiceInfo_init e name cls = Inr info \<and> si_name info = name \<and>
          si_invokes info = declared_invokes (cls_invokes cls) \<and> si_invoked_by info = []"
proof -
  define self0 where "self0 = \<lparr>si_name = name, si_service_class = cls, si_config = Config_init,
     si_simple_io = [], si_docstring = Docstring_init, si_invokes = [], si_invoked_by = []\<rparr>"
  obtain d where "set_summary_desc e (set_config e self0) = Inr ((set_config e self0)\<lparr>si_docstring := d\<rparr>)"
    using set_summary_desc_shape by blast
  then show ?thesis
    by (simp add: ServiceInfo_init_def ServiceInfo_parse_def self0_def [symmetric] set_config_fields)
       (simp add: self0_def)
qed

subsection \<open>parse_services\<close>

lemma parse_services_Inr: "\<exists>svcs'. parse_services e p reg svcs = Inr svcs'"
proof (induction reg arbitrary: svcs)
  case Nil
  then show ?case by simp
next
  case (Cons a reg)
  obtain impl_name det where a: "a = (impl_name, det)" by (cases a)
  obtain info where "ServiceInfo_init e (d_name det) (d_service_class det) = Inr info"
    using ServiceInfo_init_Inr by blast
  with Cons a show ?case by (simp add: then_do_def)
qed

lemma parse_services_keys:
  "parse_services e p reg svcs = Inr svcs' \<Longrightarrow>
   fst ` set svcs' = fst ` set svcs \<union> (\<lambda>(impl_name, det). d_name det) ` set (retained p reg)"
proof (induction reg arbitrary: svcs)
  case Nil
  then show ?case by (simp add: retained_def)
next
  case (Cons a reg)
  obtain impl_name det where a: "a = (impl_name, det)" by (cases a)
  obtain info where i: "ServiceInfo_init e (d_name det) (d_service_class det) = Inr info"
     "si_name info = d_name det"
    using ServiceInfo_init_Inr by blast
  show ?case
  proof (cases "startswith impl_name p")
    case True
    with Cons a show ?thesis by (simp add: retained_def)
  next
    case False
    with Cons.prems a i have "parse_services e p reg (AList.update (d_name det) info svcs) = Inr svcs'"
      by (simp add: then_do_def)
    from Cons.IH [OF this] False a show ?thesis
      by (auto simp: retained_def dom_update)
  qed
qed

lemma set_update_subset: "set (AList.update k v al) \<subseteq> insert (k, v) (set al)"
  by (induction al) auto

lemma parse_services_inv:
  "parse_services e p reg svcs = Inr svcs' \<Longrightarrow> distinct (map fst svcs) \<Longrightarrow>
   (\<forall>(k, i) \<in> set svcs. si_name i = k) \<Longrightarrow>
   distinct (map fst svcs') \<and> (\<forall>(k, i) \<in> set svcs'. si_name i = k)"
proof (induction reg arbitrary: svcs)
  case Nil
  then show ?case by auto
next
  case (Cons a reg)
  obtain impl_name det where a: "a = (impl_name, det)" by (cases a)
  obtain info where i: "ServiceInfo_init e (d_name det) (d_service_class det) = Inr info"
     "si_name info = d_name det"
    using ServiceInfo_init_Inr by blast
  show ?case
  proof (cases "startswith impl_name p")
    case True
    with Cons a show ?thesis by simp
  next
    case False
    with Cons.prems a i have 1: "parse_services e p reg (AList.update (d_name det) info svcs) = Inr svcs'"
      by (simp add: then_do_def)
    have 2: "distinct (map fst (AList.update (d_name det) info svcs))"
      using Cons.prems(2) by (rule distinct_update)
    have 3: "\<forall>(k, i) \<in> set (AList.update (d_name det) info svcs). si_name i = k"
      using Cons.prems(3) i(2) set_update_subset [of "d_name det" info svcs] by auto
    from Cons.IH [OF 1 2 3] show ?thesis .
  qed
qed

subsection \<open>parse_invokes\<close>

lemma parse_invokes_other:
  "n \<notin> fst ` set svcs \<Longrightarrow> map_of (parse_invokes svcs invs) n = map_of invs n"
  by (induction svcs arbitrary: invs) (auto simp: update_conv')

lemma parse_invokes_lookup:
  "distinct (map fst svcs) \<Longrightarrow> (n, i) \<in> set svcs \<Longrightarrow>
   map_of (parse_invokes svcs invs) n = Some (si_invokes i)"
proof (induction svcs arbitrary: invs)
  case Nil
  then show ?case by simp
next
  case (Cons a svcs)
  obtain n0 i0 where a: "a = (n0, i0)" by (cases a)
  show ?case
  proof (cases "(n, i) = (n0, i0)")
    case True
    with Cons.prems a have "n \<notin> fst ` set svcs" by auto
    with True a show ?thesis by (simp add: parse_invokes_other update_conv')
  next
    case False
    with Cons a show ?thesis by auto
  qed
qed

lemma parse_invokes_keys:
  "fst ` set (parse_invokes svcs invs) = fst ` set invs \<union> fst ` set svcs"
proof (induction svcs arbitrary: invs)
  case Nil
  then show ?case by simp
next
  case (Cons a svcs)
  obtain n i where a: "a = (n, i)" by (cases a)
  have "fst ` set (parse_invokes (a # svcs) invs) =
        fst ` set (AList.update n (si_invokes i) invs) \<union> fst ` set svcs"
    using Cons.IH a by simp
  also have "\<dots> = fst ` set invs \<union> fst ` set (a # svcs)"
    unfolding dom_update a by auto
  finally show ?case .
qed

subsection \<open>parse_invoked_by\<close>

lemma setdefault_append_new: "has_edge (setdefault_append target source ib) target source"
  by (auto simp: has_edge_def setdefault_append_def update_conv' split: option.splits)

lemma setdefault_append_mono:
  "has_edge ib t s \<Longrightarrow> has_edge (setdefault_append target source ib) t s"
  by (auto simp: has_edge_def setdefault_append_def update_conv' split: option.splits)

lemma parse_targets_mono: "has_edge ib t s \<Longrightarrow> has_edge (parse_targets source targets ib) t s"
  by (induction targets arbitrary: ib) (auto simp: setdefault_append_mono)

lemma parse_targets_new:
  "target \<in> set targets \<Longrightarrow> has_edge (parse_targets source targets ib) target source"
proof (induction targets arbitrary: ib)
  case Nil
  then show ?case by simp
next
  case (Cons a targets)
  show ?case
  proof (cases "target = a")
    case True
    then show ?thesis by (simp add: parse_targets_mono setdefault_append_new)
  next
    case False
    with Cons show ?thesis by simp
  qed
qed

lemma parse_invoked_by_mono: "has_edge ib t s \<Longrightarrow> has_edge (parse_invoked_by invs ib) t s"
  by (induction invs arbitrary: ib) (auto simp: parse_targets_mono)

lemma parse_invoked_by_new:
  "(source, targets) \<in> set invs \<Longrightarrow> target \<in> set targets \<Longrightarrow>
   has_edge (parse_invoked_by invs ib) target source"
proof (induction invs arbitrary: ib)
  case Nil
  then show ?case by simp
next
  case (Cons a invs)
  show ?case
  proof (cases "a = (source, targets)")
    case True
    with Cons.prems show ?thesis by (simp add: parse_invoked_by_mono parse_targets_new)
  next
    case False
    with Cons show ?thesis by (cases a) auto
  qed
qed

subsection \<open>assign_invoked_by\<close>

lemma assign_invoked_by_keys: "map fst (assign_invoked_by ib svcs) = map fst svcs"
  by (induction svcs) (auto simp: assign_invoked_by_def)

lemma assign_invoked_by_lookup:
  "map_of (assign_invoked_by ib svcs) n =
     map_option (\<lambda>info. info\<lparr>si_invoked_by := (case map_of ib n of Some xs \<Rightarrow> xs | None \<Rightarrow> [])\<rparr>)
       (map_of svcs n)"
  by (induction svcs) (auto simp: assign_invoked_by_def)

subsection \<open>parse\<close>

lemma parse_Inr:
  "\<exists>svcs'. parse_services e p (service_store_services g) (services g) = Inr svcs' \<and>
     parse e g p = Inr (g\<lparr>services := assign_invoked_by
                              (parse_invoked_by (parse_invokes svcs' (invokes g)) (invoked_by g)) svcs',
                          invokes := parse_invokes svcs' (invokes g),
                          invoked_by := parse_invoked_by (parse_invokes svcs' (invokes g)) (invoked_by g)\<rparr>)"
proof -
  obtain svcs' where "parse_services e p (service_store_services g) (services g) = Inr svcs'"
    using parse_services_Inr by blast
  then show ?thesis by (simp add: parse_def then_do_def Let_def)
qed

subsection \<open>collect_items\<close>

lemma collect_items_Inr:
  "set names \<subseteq> fst ` set (services g) \<Longrightarrow>
   \<exists>infos. collect_items g names out = Inr (out @ map make_item infos) \<and>
     map (\<lambda>n. Some n) infos =
       map (map_of (services g)) (filter (\<lambda>n. \<not> filtered_out (filter' g) n) names)"
proof (induction names arbitrary: out)
  case Nil
  then show ?case by simp
next
  case (Cons n names)
  show ?case
  proof (cases "filtered_out (filter' g) n")
    case True
    with Cons show ?thesis by simp
  next
    case False
    from Cons.prems obtain info where info: "map_of (services g) n = Some info"
      by (cases "map_of (services g) n") (auto simp: map_of_eq_None_iff)
    from Cons.prems have "set names \<subseteq> fst ` set (services g)" by simp
    from Cons.IH [OF this, of "out @ [make_item info]"] obtain infos where
      "collect_items g names (out @ [make_item info]) = Inr ((out @ [make_item info]) @ map make_item infos)"
      "map (\<lambda>n. Some n) infos = map (map_of (services g)) (filter (\<lambda>n. \<not> filtered_out (filter' g) n) names)"
      by blast
    with False info have "collect_items g (n # names) out = Inr (out @ map make_item (info # infos)) \<and>
      map (\<lambda>n. Some n) (info # infos) =
       map (map_of (services g)) (filter (\<lambda>n. \<not> filtered_out (filter' g) n) (n # names))"
      by simp
    then show ?thesis by blast
  qed
qed

subsection \<open>The docstring of a new ServiceInfo\<close>

lemma ServiceInfo_init_doc_absent:
  assumes "cls_doc cls = None \<or> cls_doc cls = Some []"
  shows "\<exists>info. ServiceInfo_init e name cls = Inr info \<and> si_docstring info = Docstring_init"
  using assms
  by (auto simp: ServiceInfo_init_def ServiceInfo_parse_def set_summary_desc_def set_config_fields)

lemma ServiceInfo_init_doc_Some:
  assumes "cls_doc cls = Some doc0" "doc0 \<noteq> []"
  shows "\<exists>info. ServiceInfo_init e name cls = Inr info \<and>
     si_docstring info =
        \<lparr>summary = strip (hd (splitlines doc0)),
         description = description_rule (normalized_full e (Some doc0)),
         full = rstrip (if normalized_full e (Some doc0) = [] then []
                        else drop_period (hd (splitlines doc0))
                              (drop_period (description_rule (normalized_full e (Some doc0)))
                                 (normalized_full e (Some doc0))))\<rparr>"
proof -
  define self0 where "self0 = set_config e \<lparr>si_name = name, si_service_class = cls, si_config = Config_init,
     si_simple_io = [], si_docstring = Docstring_init, si_invokes = [], si_invoked_by = []\<rparr>"
  have "cls_doc (si_service_class self0) = Some doc0"
    using assms(1) by (simp add: self0_def set_config_fields)
  from set_summary_desc_Some [OF this assms(2), of e] show ?thesis
    by (simp add: ServiceInfo_init_def ServiceInfo_parse_def self0_def [symmetric])
qed

lemma ServiceInfo_init_simple_io:
  "\<exists>info. ServiceInfo_init e name cls = Inr info \<and>
     si_simple_io info = (case cls_SimpleIO cls of None \<Rightarrow> []
                          | Some sio \<Rightarrow> add_dialects e sio (SIO_TYPE_MAP e) [])"
proof -
  define self0 where "self0 = \<lparr>si_name = name, si_service_class = cls, si_config = Config_init,
     si_simple_io = [], si_docstring = Docstring_init, si_invokes = [], si_invoked_by = []\<rparr>"
  obtain d where "set_summary_desc e (set_config e self0) = Inr ((set_config e self0)\<lparr>si_docstring := d\<rparr>)"
    using set_summary_desc_shape by blast
  moreover have "si_simple_io (set_config e self0) = (case cls_SimpleIO cls of None \<Rightarrow> []
                          | Some sio \<Rightarrow> add_dialects e sio (SIO_TYPE_MAP e) [])"
    by (simp add: self0_def set_config_def add_simple_io_def add_services_from_invokes_def
        split: option.splits invokes_decl.splits)
  ultimately show ?thesis
    by (simp add: ServiceInfo_init_def ServiceInfo_parse_def self0_def [symmetric])
qed

subsection \<open>get_info on a new Generator\<close>

lemma names_of_lookups:
  "map Some infos = map (map_of svcs) nms \<Longrightarrow> \<forall>(k, i) \<in> set svcs. si_name i = k \<Longrightarrow>
   map si_name infos = nms"
proof (induction infos arbitrary: nms)
  case Nil
  then show ?case by simp
next
  case (Cons i infos)
  then obtain n nms' where nms: "nms = n # nms'" by (cases nms) auto
  with Cons.prems have "map_of svcs n = Some i" "map Some infos = map (map_of svcs) nms'" by auto
  with Cons nms show ?case by (auto dest: map_of_SomeD)
qed

lemma assign_invoked_by_names:
  "\<forall>(k, i) \<in> set svcs. si_name i = k \<Longrightarrow> \<forall>(k, i) \<in> set (assign_invoked_by ib svcs). si_name i = k"
  by (auto simp: assign_invoked_by_def)

lemma assign_invoked_by_dom: "fst ` set (assign_invoked_by ib svcs) = fst ` set svcs"
  using assign_invoked_by_keys [of ib svcs] by (metis set_map)

lemma get_info_new:
  "\<exists>svcs invs ib infos.
     parse_services e p reg [] = Inr svcs \<and>
     invs = parse_invokes svcs [] \<and> ib = parse_invoked_by invs [] \<and>
     get_info e (Generator_init reg flt) p =
       Inr (map make_item infos,
            \<lparr>service_store_services = reg, filter' = flt,
             services = assign_invoked_by ib svcs, invokes = invs, invoked_by = ib\<rparr>) \<and>
     map Some infos = map (map_of (assign_invoked_by ib svcs))
                        (filter (\<lambda>n. \<not> filtered_out flt n) (sort (map fst svcs)))"
proof -
  define g where "g = Generator_init reg flt"
  obtain svcs where svcs: "parse_services e p (service_store_services g) (services g) = Inr svcs"
    and pg: "parse e g p = Inr (g\<lparr>services := assign_invoked_by
                              (parse_invoked_by (parse_invokes svcs (invokes g)) (invoked_by g)) svcs,
                          invokes := parse_invokes svcs (invokes g),
                          invoked_by := parse_invoked_by (parse_invokes svcs (invokes g)) (invoked_by g)\<rparr>)"
    using parse_Inr by blast
  define invs where "invs = parse_invokes svcs []"
  define ib where "ib = parse_invoked_by invs []"
  define g' where "g' = \<lparr>service_store_services = reg, filter' = flt,
             services = assign_invoked_by ib svcs, invokes = invs, invoked_by = ib\<rparr>"
  have pg': "parse e g p = Inr g'"
    using pg by (simp add: g_def Generator_init_def g'_def invs_def ib_def)
  have "set (sort (map fst (services g'))) \<subseteq> fst ` set (services g')" by simp
  from collect_items_Inr [OF this, of "[]"] obtain infos where
    infos: "collect_items g' (sort (map fst (services g'))) [] = Inr (map make_item infos)"
      "map Some infos = map (map_of (services g'))
          (filter (\<lambda>n. \<not> filtered_out (filter' g') n) (sort (map fst (services g'))))"
    by auto
  have "get_info e g p = Inr (map make_item infos, g')"
    using pg' infos(1) by (simp add: get_info_def then_do_def)
  moreover have "map Some infos = map (map_of (assign_invoked_by ib svcs))
                        (filter (\<lambda>n. \<not> filtered_out flt n) (sort (map fst svcs)))"
    using infos(2) by (simp add: g'_def assign_invoked_by_keys)
  moreover have "parse_services e p reg [] = Inr svcs"
    using svcs by (simp add: g_def Generator_init_def)
  ultimately show ?thesis
    unfolding g_def g'_def invs_def ib_def by blast
qed

subsection \<open>Trimming a sentence\<close>

lemma not_space_period: "\<not> is_space CHR ''.''"
  by (simp add: is_space_def)

lemma strip_sentence:
  assumes "ws \<noteq> []" "\<forall>c \<in> set ws. is_space c"
  shows "strip (s @ [CHR ''.''] @ ws) = dropWhile is_space s @ [CHR ''.'']"
proof -
  have 1: "dropWhile is_space (s @ CHR ''.'' # ws) = dropWhile is_space s @ CHR ''.'' # ws"
    by (induction s) (auto simp: not_space_period)
  have 2: "dropWhile is_space (rev ws @ CHR ''.'' # t) = CHR ''.'' # t" for t
  proof -
    have "dropWhile is_space (rev ws @ CHR ''.'' # t) = dropWhile is_space (CHR ''.'' # t)"
      by (rule dropWhile_append2) (use assms(2) in auto)
    then show ?thesis by (simp add: not_space_period)
  qed
  show ?thesis
    by (simp add: strip_def rstrip_def 1 2)
qed

subsection \<open>The services and the sources of a new Generator\<close>

lemma new_generator_services:
  assumes "parse_services e p reg [] = Inr svcs"
  shows "distinct (map fst svcs)" "\<forall>(k, i) \<in> set svcs. si_name i = k"
    "fst ` set svcs = (\<lambda>(impl_name, det). d_name det) ` set (retained p reg)"
  using parse_services_inv [OF assms] parse_services_keys [OF assms] by auto

lemma item_name_make_item: "map item_name (map make_item infos) = map si_name infos"
  by (simp add: make_item_def)

lemma filtered_out_falsy: "filtered_out None n = False" "filtered_out (Some []) n = False"
  by (simp_all add: filtered_out_def)

lemma setdefault_append_sources:
  "has_edge (setdefault_append target source ib) t s \<Longrightarrow> has_edge ib t s \<or> s = source"
  by (auto simp: has_edge_def setdefault_append_def update_conv' split: option.splits if_splits)

lemma parse_targets_sources:
  "has_edge (parse_targets source targets ib) t s \<Longrightarrow> has_edge ib t s \<or> s = source"
  by (induction targets arbitrary: ib) (auto dest: setdefault_append_sources)

lemma parse_invoked_by_sources:
  "has_edge (parse_invoked_by invs ib) t s \<Longrightarrow> has_edge ib t s \<or> s \<in> fst ` set invs"
proof (induction invs arbitrary: ib)
  case Nil
  then show ?case by simp
next
  case (Cons a invs)
  obtain source targets where a: "a = (source, targets)" by (cases a)
  from Cons.prems a have "has_edge (parse_invoked_by invs (parse_targets source targets ib)) t s"
    by simp
  from Cons.IH [OF this] have "has_edge (parse_targets source targets ib) t s \<or> s \<in> fst ` set invs" .
  then show ?case
    using a by (auto dest: parse_targets_sources)
qed

subsection \<open>Class attributes of any shape\<close>

lemma str_splitlines_from_nonempty: "cur \<noteq> [] \<or> s \<noteq> [] \<Longrightarrow> str_splitlines_from cur s \<noteq> []"
  by (induction cur s rule: str_splitlines_from.induct) auto

lemma str_splitlines_nonempty: "s \<noteq> [] \<Longrightarrow> str_splitlines s \<noteq> []"
  by (simp add: str_splitlines_def str_splitlines_from_nonempty)

lemma is_ascii_simps: "is_ascii []" "is_ascii (c # s) = ((of_char c :: nat) < 128 \<and> is_ascii s)"
  "is_ascii (s @ t) = (is_ascii s \<and> is_ascii t)"
  by (simp_all add: is_ascii_def)

lemma str_splitlines_from_ascii:
  "is_ascii cur \<Longrightarrow> is_ascii s \<Longrightarrow> list_all is_ascii (str_splitlines_from cur s)"
  by (induction cur s rule: str_splitlines_from.induct) (auto simp: is_ascii_simps)

lemma str_splitlines_ascii: "is_ascii s \<Longrightarrow> list_all is_ascii (str_splitlines s)"
  by (simp add: str_splitlines_def str_splitlines_from_ascii is_ascii_simps)

lemma all_to_unicode_Unicode: "all_to_unicode (map Unicode ls) = Inr ls"
  by (induction ls) (simp_all add: to_unicode_def then_do_def)

lemma all_to_unicode_Str: "list_all is_ascii ls \<Longrightarrow> all_to_unicode (map Str ls) = Inr ls"
  by (induction ls) (simp_all add: to_unicode_def then_do_def)

lemma param_list_dyn_Named:
  "param_list_dyn e asi (map Named ps) acc = Inr (acc @ map (make_param_info e asi) ps)"
  by (induction ps arbitrary: acc) simp_all

lemma all_Named: "Nameless \<notin> set ps \<Longrightarrow> \<exists>ps'. ps = map Named ps'"
proof (induction ps)
  case Nil
  then show ?case by simp
next
  case (Cons a ps)
  then obtain ps' where "ps = map Named ps'" by auto
  moreover from Cons.prems obtain p where "a = Named p" by (cases a) auto
  ultimately have "a # ps = map Named (p # ps')" by simp
  then show ?case by (rule exI)
qed

lemma group_dyn_Inr: "named_group g \<Longrightarrow> \<exists>r. group_dyn e asi g = Inr r"
proof (cases g)
  case (Iterable ps)
  assume "named_group g"
  with Iterable obtain ps' where "ps = map Named ps'"
    using all_Named by (auto simp: named_group_def)
  with Iterable show ?thesis by (simp add: group_dyn_def param_list_dyn_Named)
next
  case Not_iterable
  assume "named_group g"
  with Not_iterable show ?thesis by (simp add: named_group_def)
qed

lemma sio_for_dyn_Inr:
  assumes "named_groups (Some sio)"
  shows "\<exists>r. sio_for_dyn e sio asi = Inr r"
proof -
  from assms have g: "named_group (at_input_required sio)" "named_group (at_output_required sio)"
    "named_group (at_input_optional sio)" "named_group (at_output_optional sio)"
    by (simp_all add: named_groups_def)
  obtain r1 r2 r3 r4 where
    "group_dyn e asi (at_input_required sio) = Inr r1" "group_dyn e asi (at_output_required sio) = Inr r2"
    "group_dyn e asi (at_input_optional sio) = Inr r3" "group_dyn e asi (at_output_optional sio) = Inr r4"
    using group_dyn_Inr [OF g(1), of e asi] group_dyn_Inr [OF g(2), of e asi]
      group_dyn_Inr [OF g(3), of e asi] group_dyn_Inr [OF g(4), of e asi]
    by (elim exE)
  then show ?thesis by (simp add: sio_for_dyn_def then_do_def)
qed

lemma add_dialects_dyn_Inr:
  assumes "named_groups (Some sio)"
  shows "\<exists>r. add_dialects_dyn e sio asis simple_io = Inr r"
proof (induction asis arbitrary: simple_io)
  case Nil
  then show ?case by simp
next
  case (Cons asi asis)
  obtain b where "sio_for_dyn e sio asi = Inr b"
    using sio_for_dyn_Inr [OF assms, of e asi] by (elim exE)
  with Cons show ?case by (simp add: then_do_def)
qed

lemma add_services_from_invokes_dyn_fields:
  "dy_name (add_services_from_invokes_dyn self) = dy_name self"
  "dy_service_class (add_services_from_invokes_dyn self) = dy_service_class self"
  "dy_simple_io (add_services_from_invokes_dyn self) = dy_simple_io self"
  "dy_docstring (add_services_from_invokes_dyn self) = dy_docstring self"
  "dy_invoked_by (add_services_from_invokes_dyn self) = dy_invoked_by self"
  "dy_invokes (add_services_from_invokes_dyn self) =
     dy_invokes self @ declared_invokes (at_invokes (dy_service_class self))"
  by (simp_all add: add_services_from_invokes_dyn_def declared_invokes_def split: invokes_decl.splits)

lemma set_config_dyn_Inr:
  assumes "named_groups (at_SimpleIO (dy_service_class self))"
  shows "\<exists>sio. set_config_dyn e self = Inr ((add_services_from_invokes_dyn self)\<lparr>dy_simple_io := sio\<rparr>) \<and>
           (at_SimpleIO (dy_service_class self) = None \<longrightarrow> sio = dy_simple_io self)"
proof (cases "at_SimpleIO (dy_service_class self)")
  case None
  have "(add_services_from_invokes_dyn self)\<lparr>dy_simple_io := dy_simple_io self\<rparr> =
        add_services_from_invokes_dyn self"
    by (subst add_services_from_invokes_dyn_fields(3) [symmetric]) simp
  with None have "set_config_dyn e self =
      Inr ((add_services_from_invokes_dyn self)\<lparr>dy_simple_io := dy_simple_io self\<rparr>)"
    by (simp add: set_config_dyn_def add_simple_io_dyn_def add_services_from_invokes_dyn_fields)
  then show ?thesis by (intro exI conjI impI) (assumption, rule refl)
next
  case (Some sio)
  with assms have "named_groups (Some sio)" by simp
  from add_dialects_dyn_Inr [OF this, of e "SIO_TYPE_MAP e" "dy_simple_io self"]
  obtain r where "add_dialects_dyn e sio (SIO_TYPE_MAP e) (dy_simple_io self) = Inr r" by (elim exE)
  with Some have "set_config_dyn e self = Inr ((add_services_from_invokes_dyn self)\<lparr>dy_simple_io := r\<rparr>)"
    by (simp add: set_config_dyn_def add_simple_io_dyn_def add_services_from_invokes_dyn_fields then_do_def)
  with Some show ?thesis by (intro exI [of _ r]) simp
qed

lemma set_summary_desc_dyn_run:
  assumes doc: "at_doc (dy_service_class self) = Some v" and ne: "chars v \<noteq> []"
    and sp: "py_splitlines v = K l # map K ls"
    and tu: "to_unicode v = Inr d"
    and uj: "unicode_join [LF] (K l # Unicode [] # map K ls) = Inr j"
  shows "\<exists>dd. set_summary_desc_dyn e self = Inr (self\<lparr>dy_docstring := dd\<rparr>)"
proof -
  have step: "then_do
       (if 1 < length (K l # map K ls)
        then then_do (unicode_join [LF] (K l # Unicode [] # drop 1 (K l # map K ls)))
               (\<lambda>joined. Inr (Unicode joined))
        else Inr v)
       (\<lambda>doc. then_do (to_unicode doc) F) = F (if 1 < length (K l # map K ls) then j else d)" for F
    using tu uj by (simp add: then_do_def to_unicode_def)
  show ?thesis
    unfolding set_summary_desc_dyn_def
    apply (simp only: doc option.case ne if_False Let_def sp item0_Cons then_do_Inr)
    apply (subst step)
    apply (subst dedup_block)
     apply (erule description_raw_nonempty)
    apply (rule exI)
    apply (rule refl)
    done
qed

lemma set_summary_desc_dyn_Inr:
  assumes "readable_doc (at_doc (dy_service_class self))"
  shows "\<exists>dd. set_summary_desc_dyn e self = Inr (self\<lparr>dy_docstring := dd\<rparr>)"
proof (cases "at_doc (dy_service_class self)")
  case None
  then have "set_summary_desc_dyn e self = Inr (self\<lparr>dy_docstring := dy_docstring self\<rparr>)"
    by (simp add: set_summary_desc_dyn_def)
  then show ?thesis by (rule exI)
next
  case (Some v)
  show ?thesis
  proof (cases "chars v = []")
    case True
    with Some have "set_summary_desc_dyn e self = Inr (self\<lparr>dy_docstring := dy_docstring self\<rparr>)"
      by (simp add: set_summary_desc_dyn_def)
    then show ?thesis by (rule exI)
  next
    case False
    show ?thesis
    proof (cases v)
      case (Unicode s)
      with False have "s \<noteq> []" by (simp add: chars_def)
      then obtain l ls where ls: "splitlines s = l # ls"
        using splitlines_nonempty [of s] by (cases "splitlines s") auto
      have sp: "py_splitlines v = Unicode l # map Unicode ls"
        using Unicode ls by (simp add: py_splitlines_def)
      have tu: "to_unicode v = Inr s"
        using Unicode by (simp add: to_unicode_def)
      have uj: "unicode_join [LF] (Unicode l # Unicode [] # map Unicode ls) = Inr (join [LF] (l # [] # ls))"
        using all_to_unicode_Unicode [of "l # [] # ls"] by (simp add: unicode_join_def then_do_def)
      from set_summary_desc_dyn_run [OF Some False sp tu uj] show ?thesis .
    next
      case (Str s)
      with False have ne: "s \<noteq> []" by (simp add: chars_def)
      from assms Some Str have asc: "is_ascii s" by (simp add: readable_doc_def)
      from ne obtain l ls where ls: "str_splitlines s = l # ls"
        using str_splitlines_nonempty [of s] by (cases "str_splitlines s") auto
      have sp: "py_splitlines v = Str l # map Str ls"
        using Str ls by (simp add: py_splitlines_def)
      have tu: "to_unicode v = Inr s"
        using Str asc by (simp add: to_unicode_def)
      have "list_all is_ascii (l # ls)"
        using str_splitlines_ascii [OF asc] ls by simp
      then have "all_to_unicode (Str l # Unicode [] # map Str ls) = Inr (l # [] # ls)"
        using all_to_unicode_Str [of ls] by (simp add: to_unicode_def then_do_def)
      then have uj: "unicode_join [LF] (Str l # Unicode [] # map Str ls) = Inr (join [LF] (l # [] # ls))"
        by (simp add: unicode_join_def then_do_def)
      from set_summary_desc_dyn_run [OF Some False sp tu uj] show ?thesis .
    qed
  qed
qed

lemma sio_for_dyn_typed: "sio_for_dyn e (sio_attrs_of sio) asi = Inr (sio_for e sio asi)"
  by (simp add: sio_for_dyn_def sio_for_def sio_attrs_of_def group_dyn_def param_list_dyn_Named then_do_def)

lemma add_dialects_dyn_typed:
  "add_dialects_dyn e (sio_attrs_of sio) asis simple_io = Inr (add_dialects e sio asis simple_io)"
  by (induction asis arbitrary: simple_io) (simp_all add: sio_for_dyn_typed then_do_def)

lemma set_config_dyn_typed: "set_config_dyn e (info_dyn_of self) = Inr (info_dyn_of (set_config e self))"
  by (cases "cls_SimpleIO (si_service_class self)"; cases "cls_invokes (si_service_class self)")
     (simp_all add: set_config_dyn_def set_config_def add_simple_io_dyn_def add_simple_io_def
      add_services_from_invokes_dyn_def add_services_from_invokes_def info_dyn_of_def attrs_of_def
      add_dialects_dyn_typed then_do_def)

lemma set_summary_desc_dyn_exact:
  assumes doc: "at_doc (dy_service_class self) = Some v" and ne: "chars v \<noteq> []"
    and sp: "py_splitlines v = K l # map K ls"
    and tu: "to_unicode v = Inr d"
    and uj: "unicode_join [LF] (K l # Unicode [] # map K ls) = Inr j"
    and F: "F = rstrip_chars [dquote, dquote, dquote]
                 (lstrip_chars [dquote, dquote, dquote]
                   (format_docstring e ([dquote] @ (if 1 < length (K l # map K ls) then j else d) @ [dquote])))"
  shows "set_summary_desc_dyn e self =
     Inr (self\<lparr>dy_docstring :=
        \<lparr>summary = chars (py_strip (K l)),
         description = description_rule F,
         full = rstrip (if F = [] then []
                        else drop_period (chars (K l)) (drop_period (description_rule F) F))\<rparr>\<rparr>)"
proof -
  have step: "then_do
       (if 1 < length (K l # map K ls)
        then then_do (unicode_join [LF] (K l # Unicode [] # drop 1 (K l # map K ls)))
               (\<lambda>joined. Inr (Unicode joined))
        else Inr v)
       (\<lambda>doc. then_do (to_unicode doc) G) = G (if 1 < length (K l # map K ls) then j else d)" for G
    using tu uj by (simp add: then_do_def to_unicode_def)
  have d_raw: "(if 1 < length (splitlines F) \<and> splitlines F ! 1 = []
                then join [LF] (drop 2 (splitlines F)) else []) = description_rule F"
    by (simp add: description_rule_def Let_def)
  have d2: "description_rule F \<noteq> [] \<Longrightarrow> butlast F \<noteq> []"
    by (rule butlast_nonempty [OF description_rule_nonempty])
  show ?thesis
    unfolding set_summary_desc_dyn_def
    apply (simp only: doc option.case ne if_False Let_def sp item0_Cons then_do_Inr)
    apply (subst step)
    apply (simp only: F [symmetric] d_raw)
    apply (subst dedup_block)
     apply (erule d2)
    apply (rule refl)
    done
qed

lemma set_summary_desc_dyn_typed:
  "set_summary_desc_dyn e (info_dyn_of self) = map_sum id info_dyn_of (set_summary_desc e self)"
proof (cases "cls_doc (si_service_class self)")
  case None
  then show ?thesis
    by (simp add: set_summary_desc_dyn_def set_summary_desc_def info_dyn_of_def attrs_of_def)
next
  case (Some doc0)
  show ?thesis
  proof (cases "doc0 = []")
    case True
    with Some show ?thesis
      by (simp add: set_summary_desc_dyn_def set_summary_desc_def info_dyn_of_def attrs_of_def chars_def)
  next
    case False
    then obtain l ls where ls: "splitlines doc0 = l # ls"
      using splitlines_nonempty [of doc0] by (cases "splitlines doc0") auto
    have doc: "at_doc (dy_service_class (info_dyn_of self)) = Some (Unicode doc0)"
      using Some by (simp add: info_dyn_of_def attrs_of_def)
    have ne: "chars (Unicode doc0) \<noteq> []" using False by (simp add: chars_def)
    have sp: "py_splitlines (Unicode doc0) = Unicode l # map Unicode ls"
      using ls by (simp add: py_splitlines_def)
    have tu: "to_unicode (Unicode doc0) = Inr doc0" by (simp add: to_unicode_def)
    have uj: "unicode_join [LF] (Unicode l # Unicode [] # map Unicode ls) = Inr (join [LF] (l # [] # ls))"
      using all_to_unicode_Unicode [of "l # [] # ls"] by (simp add: unicode_join_def then_do_def)
    have F: "normalized_full e (Some doc0) = rstrip_chars [dquote, dquote, dquote]
                 (lstrip_chars [dquote, dquote, dquote]
                   (format_docstring e ([dquote] @
                      (if 1 < length (Unicode l # map Unicode ls) then join [LF] (l # [] # ls) else doc0) @
                      [dquote])))"
      using False ls by (simp add: normalized_full_def Let_def)
    from set_summary_desc_dyn_exact [OF doc ne sp tu uj F, of ] set_summary_desc_Some [OF Some False, of e]
    show ?thesis
      by (simp add: ls chars_def py_strip_def info_dyn_of_def)
  qed
qed

lemma ServiceInfo_init_dyn_typed:
  "ServiceInfo_init_dyn e name (attrs_of cls) = map_sum id info_dyn_of (ServiceInfo_init e name cls)"
proof -
  define self0 where "self0 = \<lparr>si_name = name, si_service_class = cls, si_config = Config_init,
     si_simple_io = [], si_docstring = Docstring_init, si_invokes = [], si_invoked_by = []\<rparr>"
  have 0: "\<lparr>dy_name = name, dy_service_class = attrs_of cls, dy_config = Config_init,
       dy_simple_io = [], dy_docstring = Docstring_init, dy_invokes = [], dy_invoked_by = []\<rparr> =
     info_dyn_of self0"
    by (simp add: info_dyn_of_def self0_def)
  show ?thesis
    unfolding ServiceInfo_init_dyn_def ServiceInfo_parse_dyn_def ServiceInfo_init_def
      ServiceInfo_parse_def self0_def [symmetric] 0
    by (simp add: set_config_dyn_typed then_do_def set_summary_desc_dyn_typed)
qed

lemma is_ascii_breaks: "is_ascii [LF]" "is_ascii [CR]"
  by (simp_all add: is_ascii_def LF_def CR_def)

lemma str_splitlines_from_non_ascii:
  "\<not> (is_ascii cur \<and> is_ascii s) \<Longrightarrow> \<not> list_all is_ascii (str_splitlines_from cur s)"
proof (induction cur s rule: str_splitlines_from.induct)
  case (1 cur)
  then show ?case by (auto simp: is_ascii_simps)
next
  case (2 cur c)
  then show ?case using is_ascii_breaks by (auto simp: is_ascii_simps)
next
  case (3 cur c d s)
  then show ?case using is_ascii_breaks by (auto simp: is_ascii_simps)
qed

lemma str_splitlines_non_ascii: "\<not> is_ascii s \<Longrightarrow> \<not> list_all is_ascii (str_splitlines s)"
  by (simp add: str_splitlines_def str_splitlines_from_non_ascii)

lemma all_to_unicode_raises:
  "\<not> list_all is_ascii ls \<Longrightarrow> all_to_unicode (map Str ls) = Inl UnicodeDecodeError"
  by (induction ls) (auto simp: to_unicode_def then_do_def)

lemma non_ascii_docstring_raises:
  assumes "at_doc (dy_service_class self) = Some (Str s)" and "\<not> is_ascii s"
  shows "set_summary_desc_dyn e self = Inl UnicodeDecodeError"
proof -
  from assms(2) have ne: "s \<noteq> []" by (auto simp: is_ascii_simps)
  then obtain l ls where ls: "str_splitlines s = l # ls"
    using str_splitlines_nonempty [of s] by (cases "str_splitlines s") auto
  have bad: "\<not> list_all is_ascii (l # ls)"
    using str_splitlines_non_ascii [OF assms(2)] ls by simp
  have tu: "to_unicode (Str s) = Inl UnicodeDecodeError"
    using assms(2) by (simp add: to_unicode_def)
  have uj: "unicode_join [LF] (Str l # Unicode [] # map Str ls) = Inl UnicodeDecodeError"
  proof (cases "is_ascii l")
    case True
    with bad have "\<not> list_all is_ascii ls" by simp
    from all_to_unicode_raises [OF this] True show ?thesis
      by (simp add: unicode_join_def then_do_def to_unicode_def)
  next
    case False
    then show ?thesis by (simp add: unicode_join_def then_do_def to_unicode_def)
  qed
  have "then_do
       (if 1 < length (Str l # map Str ls)
        then then_do (unicode_join [LF] (Str l # Unicode [] # drop 1 (Str l # map Str ls)))
               (\<lambda>joined. Inr (Unicode joined))
        else Inr (Str s))
       (\<lambda>doc. then_do (to_unicode doc) G) = Inl UnicodeDecodeError" for G :: "string \<Rightarrow> error + ServiceInfo_dyn"
    using tu uj by (simp add: then_do_def)
  then show ?thesis
    unfolding set_summary_desc_dyn_def
    using assms(1) ne ls
    by (simp only: option.case chars_def pystr.case if_False Let_def py_splitlines_def list.map
        item0_Cons then_do_Inr)
qed

section \<open>The claims\<close>

subsection \<open>Service descriptors\<close>

text \<open>
  C2, as amended. The list or tuple declared as \<open>invokes\<close> is copied into the descriptor
  as it stands: every target occurs as often as it was declared and in the declared
  order, so duplicates are kept. A single string that is not empty gives exactly one
  element; a missing declaration and an empty string give the empty list.
\<close>

theorem invokes_kept_as_declared:
  "\<exists>info. ServiceInfo_init e name cls = Inr info \<and>
     (\<forall>xs. cls_invokes cls = Invokes_seq xs \<longrightarrow> si_invokes info = xs) \<and>
     (\<forall>s. cls_invokes cls = Invokes_str s \<and> s \<noteq> [] \<longrightarrow> si_invokes info = [s]) \<and>
     (cls_invokes cls = No_invokes \<or> cls_invokes cls = Invokes_str [] \<longrightarrow> si_invokes info = [])"
proof -
  obtain info where info: "ServiceInfo_init e name cls = Inr info"
      "si_invokes info = declared_invokes (cls_invokes cls)"
    using ServiceInfo_init_Inr by blast
  from info(2) have
    "(\<forall>xs. cls_invokes cls = Invokes_seq xs \<longrightarrow> si_invokes info = xs) \<and>
     (\<forall>s. cls_invokes cls = Invokes_str s \<and> s \<noteq> [] \<longrightarrow> si_invokes info = [s]) \<and>
     (cls_invokes cls = No_invokes \<or> cls_invokes cls = Invokes_str [] \<longrightarrow> si_invokes info = [])"
    by (auto simp: declared_invokes_def)
  with info(1) show ?thesis by (intro exI [of _ info]) simp
qed

theorem invokes_kept_as_declared_witness:
  "\<exists>info. ServiceInfo_init example_env ''foo''
        (example_class (Invokes_seq [''bar'', ''baz'', ''bar'']) None) = Inr info \<and>
     si_invokes info = [''bar'', ''baz'', ''bar'']"
  using invokes_kept_as_declared [of example_env "''foo''"
      "example_class (Invokes_seq [''bar'', ''baz'', ''bar'']) None"]
  by (simp add: example_class_def)

text \<open>
  The claim as first stated fails: a declaration that names \<open>bar\<close> twice gives a
  descriptor that lists \<open>bar\<close> twice, and the empty string, a single-string declaration,
  gives no element.
\<close>

theorem invokes_duplicates_counterexample:
  "map_sum id si_invokes
     (ServiceInfo_init example_env ''foo'' (example_class (Invokes_seq [''bar'', ''bar'']) None))
     = Inr [''bar'', ''bar''] \<and>
   map_sum id si_invokes
     (ServiceInfo_init example_env ''foo'' (example_class (Invokes_str []) None))
     = Inr []"
  by (simp add: ServiceInfo_init_def ServiceInfo_parse_def set_summary_desc_def set_config_def
      add_simple_io_def add_services_from_invokes_def example_class_def)

text \<open>
  C3, as amended. Building a ServiceInfo never raises when the docstring of the class is
  absent, a unicode string or a byte string of ASCII characters, and the parameter
  groups of its SimpleIO, if it has one, are iterable and hold strings and named elements
  only: a missing \<open>invokes\<close> gives an empty list, a missing SimpleIO an empty mapping, a
  missing docstring the default Docstring. On every such docstring \<open>set_summary_desc\<close>,
  with its trailing-period step, returns: none of its subscripts is applied to an empty
  sequence. (\<open>format_docstring\<close> is a parameter and taken to return.)
\<close>

theorem construction_returns_on_readable_declarations:
  assumes "readable_doc (at_doc cls)" and "named_groups (at_SimpleIO cls)"
    and "readable_doc (at_doc (dy_service_class self))"
  shows "(\<exists>info. ServiceInfo_init_dyn e name cls = Inr info \<and>
            (at_invokes cls = No_invokes \<longrightarrow> dy_invokes info = []) \<and>
            (at_SimpleIO cls = None \<longrightarrow> dy_simple_io info = []) \<and>
            (at_doc cls = None \<longrightarrow> dy_docstring info = Docstring_init)) \<and>
         (\<exists>self'. set_summary_desc_dyn e self = Inr self')"
proof -
  define self0 where "self0 = \<lparr>dy_name = name, dy_service_class = cls, dy_config = Config_init,
     dy_simple_io = [], dy_docstring = Docstring_init, dy_invokes = [], dy_invoked_by = []\<rparr>"
  have "named_groups (at_SimpleIO (dy_service_class self0))"
    using assms(2) by (simp add: self0_def)
  from set_config_dyn_Inr [OF this, of e] obtain sio where
    cfg: "set_config_dyn e self0 = Inr ((add_services_from_invokes_dyn self0)\<lparr>dy_simple_io := sio\<rparr>)"
    and sio: "at_SimpleIO (dy_service_class self0) = None \<longrightarrow> sio = dy_simple_io self0"
    by (elim exE conjE)
  define self1 where "self1 = (add_services_from_invokes_dyn self0)\<lparr>dy_simple_io := sio\<rparr>"
  have cls1: "dy_service_class self1 = cls"
    by (simp add: self1_def add_services_from_invokes_dyn_fields) (simp add: self0_def)
  then have "readable_doc (at_doc (dy_service_class self1))"
    using assms(1) by simp
  from set_summary_desc_dyn_Inr [OF this, of e] obtain dd where
    dd: "set_summary_desc_dyn e self1 = Inr (self1\<lparr>dy_docstring := dd\<rparr>)"
    by (elim exE)
  define info where "info = self1\<lparr>dy_docstring := dd\<rparr>"
  have init: "ServiceInfo_init_dyn e name cls = Inr info"
    using cfg dd
    by (simp add: ServiceInfo_init_dyn_def ServiceInfo_parse_dyn_def self0_def [symmetric]
        self1_def [symmetric] info_def then_do_def)
  have 1: "at_invokes cls = No_invokes \<longrightarrow> dy_invokes info = []"
    by (simp add: info_def self1_def add_services_from_invokes_dyn_fields declared_invokes_def)
       (simp add: self0_def)
  have 2: "at_SimpleIO cls = None \<longrightarrow> dy_simple_io info = []"
    using sio by (simp add: info_def self1_def) (simp add: self0_def)
  have 3: "at_doc cls = None \<longrightarrow> dy_docstring info = Docstring_init"
  proof
    assume "at_doc cls = None"
    with cls1 have "set_summary_desc_dyn e self1 = Inr self1"
      by (simp add: set_summary_desc_dyn_def)
    with dd have "self1\<lparr>dy_docstring := dd\<rparr> = self1" by simp
    then have "dy_docstring (self1\<lparr>dy_docstring := dd\<rparr>) = dy_docstring self1" by simp
    then show "dy_docstring info = Docstring_init"
      by (simp add: info_def) (simp add: self1_def add_services_from_invokes_dyn_fields self0_def)
  qed
  have a: "\<exists>info. ServiceInfo_init_dyn e name cls = Inr info \<and>
            (at_invokes cls = No_invokes \<longrightarrow> dy_invokes info = []) \<and>
            (at_SimpleIO cls = None \<longrightarrow> dy_simple_io info = []) \<and>
            (at_doc cls = None \<longrightarrow> dy_docstring info = Docstring_init)"
    using init 1 2 3 by (intro exI [of _ info] conjI)
  from set_summary_desc_dyn_Inr [OF assms(3), of e] obtain d2 where
    "set_summary_desc_dyn e self = Inr (self\<lparr>dy_docstring := d2\<rparr>)" by (elim exE)
  then have b: "\<exists>self'. set_summary_desc_dyn e self = Inr self'" by (rule exI)
  from a b show ?thesis by (rule conjI)
qed

theorem construction_returns_on_readable_declarations_witness:
  "(\<exists>info. ServiceInfo_init_dyn example_env ''foo''
        (example_attrs (Some (example_sio (Iterable [Named (Param AsIs_class ''a'')])))
           (Some (Str ''Do foo. ''))) = Inr info \<and> dy_invokes info = []) \<and>
   (\<exists>self'. set_summary_desc_dyn example_env
       \<lparr>dy_name = ''foo'', dy_service_class = example_attrs None (Some (Str ''...'')),
        dy_config = Config_init, dy_simple_io = [], dy_docstring = Docstring_init,
        dy_invokes = [], dy_invoked_by = []\<rparr> = Inr self')"
proof -
  have 1: "readable_doc (at_doc (example_attrs (Some (example_sio (Iterable [Named (Param AsIs_class ''a'')])))
           (Some (Str ''Do foo. ''))))"
    by (simp add: readable_doc_def example_attrs_def is_ascii_def)
  have 2: "named_groups (at_SimpleIO (example_attrs (Some (example_sio (Iterable [Named (Param AsIs_class ''a'')])))
           (Some (Str ''Do foo. ''))))"
    by (simp add: named_groups_def named_group_def example_attrs_def example_sio_def)
  have 3: "readable_doc (at_doc (dy_service_class
       \<lparr>dy_name = ''foo'', dy_service_class = example_attrs None (Some (Str ''...'')),
        dy_config = Config_init, dy_simple_io = [], dy_docstring = Docstring_init,
        dy_invokes = [], dy_invoked_by = []\<rparr>))"
    by (simp add: readable_doc_def example_attrs_def is_ascii_def)
  from construction_returns_on_readable_declarations [OF 1 2 3, of example_env "''foo''"]
  show ?thesis by (simp add: example_attrs_def)
qed

text \<open>
  Without these conditions the construction raises: UnicodeDecodeError for the byte-string
  docstring \<open>caf\<close> followed by the two bytes of an e acute in UTF-8, AttributeError for a
  parameter without a name, TypeError for a group that is not iterable.
\<close>

theorem construction_raises_counterexample:
  "ServiceInfo_init_dyn example_env ''foo''
     (example_attrs None (Some (Str [CHR 0x63, CHR 0x61, CHR 0x66, CHR 0xC3, CHR 0xA9])))
     = Inl UnicodeDecodeError \<and>
   ServiceInfo_init_dyn example_env ''foo''
     (example_attrs (Some (example_sio (Iterable [Nameless]))) None)
     = Inl AttributeError \<and>
   ServiceInfo_init_dyn example_env ''foo''
     (example_attrs (Some (example_sio Not_iterable)) None)
     = Inl TypeError"
  by code_simp

subsection \<open>Parameter classification\<close>



subsection \<open>Docstrings\<close>

text \<open>
  C7. The description of a descriptor is computed from the normalized full text, taken
  before the trailing-period step: when that text has more than one line and the line
  at index 1 is empty, the description is the lines from index 2 on, joined by line
  feeds; otherwise it is empty.
\<close>

theorem description_from_normalized_full:
  "\<exists>info. ServiceInfo_init e name cls = Inr info \<and>
     description (si_docstring info) =
       (let lines = splitlines (normalized_full e (cls_doc cls)) in
        if length lines > 1 \<and> lines ! 1 = [] then join [LF] (drop 2 lines) else [])"
proof (cases "cls_doc cls = None \<or> cls_doc cls = Some []")
  case True
  then have "normalized_full e (cls_doc cls) = []"
    by (auto simp: normalized_full_def)
  with ServiceInfo_init_doc_absent [OF True, of e name] show ?thesis
    by (auto simp: Docstring_init_def splitlines_def)
next
  case False
  then obtain doc0 where "cls_doc cls = Some doc0" "doc0 \<noteq> []" by auto
  from ServiceInfo_init_doc_Some [OF this, of e name] this(1) show ?thesis
    by (auto simp: description_rule_def)
qed


theorem description_from_normalized_full_witness:
  "\<exists>info. ServiceInfo_init example_env ''foo'' (example_class No_invokes (Some (''Do foo'' @ [LF, LF] @ ''Foo does''))) = Inr info \<and>
     description (si_docstring info) =
       (let lines = splitlines (normalized_full example_env
                       (cls_doc (example_class No_invokes (Some (''Do foo'' @ [LF, LF] @ ''Foo does''))))) in
        if length lines > 1 \<and> lines ! 1 = [] then join [LF] (drop 2 lines) else [])"
  using description_from_normalized_full [of example_env "''foo''" "example_class No_invokes (Some (''Do foo'' @ [LF, LF] @ ''Foo does''))"]
  by simp

text \<open>
  C9. The summary-driven check compares the last character of the full text with the
  last character of the raw first line, which is trimmed only afterwards. When the first
  line is a sentence ending in a period followed by whitespace and the normalized full
  text ends in a period, that final period is dropped, although the summary that is
  stored ends in a period. (A second period goes as well exactly when the
  description-driven check has dropped the first and the text before it ends in a
  period too.)
\<close>

theorem summary_check_uses_raw_first_line:
  assumes "cls_doc cls = Some doc"
    and "splitlines doc = (s @ [CHR ''.''] @ ws) # rest"
    and "ws \<noteq> []" and "\<forall>c \<in> set ws. is_space c"
    and "normalized_full e (Some doc) \<noteq> []"
    and "last (normalized_full e (Some doc)) = CHR ''.''"
  shows "\<exists>info. ServiceInfo_init e name cls = Inr info \<and>
     summary (si_docstring info) = dropWhile is_space s @ [CHR ''.''] \<and>
     full (si_docstring info) =
       rstrip (if description (si_docstring info) \<noteq> [] \<and>
                  last (description (si_docstring info)) \<noteq> CHR ''.'' \<and>
                  last (butlast (normalized_full e (Some doc))) = CHR ''.''
               then butlast (butlast (normalized_full e (Some doc)))
               else butlast (normalized_full e (Some doc)))"
proof -
  have ne: "doc \<noteq> []" using assms(2) by (auto simp: splitlines_def)
  have lw: "is_space (last ws)" using assms(3,4) by simp
  then have lw': "last ws \<noteq> CHR ''.''" using not_space_period by auto
  from ServiceInfo_init_doc_Some [OF assms(1) ne, of e name] obtain info where
    info: "ServiceInfo_init e name cls = Inr info"
      "si_docstring info =
        \<lparr>summary = strip (hd (splitlines doc)),
         description = description_rule (normalized_full e (Some doc)),
         full = rstrip (if normalized_full e (Some doc) = [] then []
                        else drop_period (hd (splitlines doc))
                              (drop_period (description_rule (normalized_full e (Some doc)))
                                 (normalized_full e (Some doc))))\<rparr>"
    by blast
  have "summary (si_docstring info) = dropWhile is_space s @ [CHR ''.'']"
    using info(2) assms(2) strip_sentence [OF assms(3,4)] by simp
  moreover have "full (si_docstring info) =
       rstrip (if description (si_docstring info) \<noteq> [] \<and>
                  last (description (si_docstring info)) \<noteq> CHR ''.'' \<and>
                  last (butlast (normalized_full e (Some doc))) = CHR ''.''
               then butlast (butlast (normalized_full e (Some doc)))
               else butlast (normalized_full e (Some doc)))"
    using info(2) assms(2,3,5,6) lw'
    by (auto simp: drop_period_def)
  ultimately show ?thesis using info(1) by (intro exI [of _ info]) simp
qed


theorem summary_check_uses_raw_first_line_witness:
  "\<exists>info. ServiceInfo_init example_env ''foo'' (example_class No_invokes (Some ''Do foo. '')) = Inr info \<and>
     summary (si_docstring info) = ''Do foo.'' \<and> full (si_docstring info) = ''Do foo''"
proof -
  have h1: "cls_doc (example_class No_invokes (Some ''Do foo. '')) = Some ''Do foo. ''"
    by (simp add: example_class_def)
  have h2: "splitlines ''Do foo. '' = (''Do foo'' @ [CHR ''.''] @ '' '') # []"
    by code_simp
  have h3: "'' '' \<noteq> []" by simp
  have h4: "\<forall>c \<in> set '' ''. is_space c" by (simp add: is_space_def)
  have nf: "normalized_full example_env (Some ''Do foo. '') = ''Do foo.''"
    by code_simp
  have h5: "normalized_full example_env (Some ''Do foo. '') \<noteq> []" by (simp add: nf)
  have h6: "last (normalized_full example_env (Some ''Do foo. '')) = CHR ''.''" by (simp add: nf)
  have r: "rstrip ''Do foo'' = ''Do foo''" by code_simp
  from summary_check_uses_raw_first_line [OF h1 h2 h3 h4 h5 h6, of "''foo''"]
  show ?thesis by (simp add: nf r is_space_def)
qed

subsection \<open>The call graph\<close>

text \<open>
  C4. After \<open>parse\<close> on a new Generator, for all services \<open>a\<close> and \<open>b\<close> that are keys of
  the graph: when \<open>b\<close> is among the invokes of \<open>a\<close>, then \<open>a\<close> is among the invoked_by
  of \<open>b\<close>.
\<close>

theorem graph_closure:
  "\<exists>g'. parse e (Generator_init reg flt) p = Inr g' \<and>
     (\<forall>a b info_a info_b.
        map_of (services g') a = Some info_a \<and> map_of (services g') b = Some info_b \<and>
        b \<in> set (si_invokes info_a) \<longrightarrow> a \<in> set (si_invoked_by info_b))"
proof -
  define g where "g = Generator_init reg flt"
  obtain svcs where svcs: "parse_services e p (service_store_services g) (services g) = Inr svcs"
    and pg: "parse e g p = Inr (g\<lparr>services := assign_invoked_by
                              (parse_invoked_by (parse_invokes svcs (invokes g)) (invoked_by g)) svcs,
                          invokes := parse_invokes svcs (invokes g),
                          invoked_by := parse_invoked_by (parse_invokes svcs (invokes g)) (invoked_by g)\<rparr>)"
    using parse_Inr by blast
  define invs where "invs = parse_invokes svcs (invokes g)"
  define ib where "ib = parse_invoked_by invs (invoked_by g)"
  define g' where "g' = g\<lparr>services := assign_invoked_by ib svcs, invokes := invs, invoked_by := ib\<rparr>"
  have pg': "parse e g p = Inr g'"
    using pg by (simp add: g'_def invs_def ib_def)
  have "parse_services e p reg [] = Inr svcs"
    using svcs by (simp add: g_def Generator_init_def)
  note inv = new_generator_services [OF this]
  have closure: "a \<in> set (si_invoked_by info_b)"
    if a: "map_of (services g') a = Some info_a" and b: "map_of (services g') b = Some info_b"
      and ab: "b \<in> set (si_invokes info_a)" for a b info_a info_b
  proof -
    from a obtain i where i: "map_of svcs a = Some i" "si_invokes info_a = si_invokes i"
      by (auto simp: g'_def assign_invoked_by_lookup)
    from i(1) have "(a, i) \<in> set svcs" by (rule map_of_SomeD)
    from parse_invokes_lookup [OF inv(1) this] have "map_of invs a = Some (si_invokes i)"
      by (simp add: invs_def)
    then have "(a, si_invokes i) \<in> set invs" by (rule map_of_SomeD)
    from parse_invoked_by_new [OF this] ab i(2) have "has_edge ib b a"
      by (simp add: ib_def)
    then obtain xs where xs: "map_of ib b = Some xs" "a \<in> set xs"
      by (auto simp: has_edge_def)
    from b xs(1) have "si_invoked_by info_b = xs"
      by (auto simp: g'_def assign_invoked_by_lookup)
    with xs(2) show ?thesis by simp
  qed
  have "\<forall>a b info_a info_b.
        map_of (services g') a = Some info_a \<and> map_of (services g') b = Some info_b \<and>
        b \<in> set (si_invokes info_a) \<longrightarrow> a \<in> set (si_invoked_by info_b)"
    using closure by blast
  with pg' show ?thesis unfolding g_def by (intro exI conjI) assumption+
qed

theorem graph_closure_witness:
  "\<exists>g' info_a info_b. parse example_env (Generator_init example_registry None) ''zato'' = Inr g' \<and>
     map_of (services g') ''foo'' = Some info_a \<and> map_of (services g') ''bar'' = Some info_b \<and>
     ''bar'' \<in> set (si_invokes info_a) \<and> ''foo'' \<in> set (si_invoked_by info_b)"
proof -
  from graph_closure [of example_env example_registry None "''zato''"] obtain g' where
    1: "parse example_env (Generator_init example_registry None) ''zato'' = Inr g'"
    and 2: "\<forall>a b info_a info_b.
        map_of (services g') a = Some info_a \<and> map_of (services g') b = Some info_b \<and>
        b \<in> set (si_invokes info_a) \<longrightarrow> a \<in> set (si_invoked_by info_b)"
    by (elim exE conjE)
  have "map_sum id (\<lambda>g. map (\<lambda>(n, i). (n, si_invokes i)) (services g))
          (parse example_env (Generator_init example_registry None) ''zato'') =
        Inr [(''foo'', [''bar'', ''zato.ping'']), (''bar'', [])]"
    by (simp add: parse_def then_do_def Generator_init_def example_registry_def
        example_class_def ServiceInfo_init_def ServiceInfo_parse_def set_summary_desc_def set_config_def
        add_simple_io_def add_services_from_invokes_def startswith_def setdefault_append_def
        assign_invoked_by_def Let_def)
  with 1 have "map (\<lambda>(n, i). (n, si_invokes i)) (services g') =
        [(''foo'', [''bar'', ''zato.ping'']), (''bar'', [])]"
    by simp
  then obtain info_a info_b where
    3: "services g' = [(''foo'', info_a), (''bar'', info_b)]" "si_invokes info_a = [''bar'', ''zato.ping'']"
    by (auto simp: map_eq_Cons_conv)
  have 4: "map_of (services g') ''foo'' = Some info_a" "map_of (services g') ''bar'' = Some info_b"
    "''bar'' \<in> set (si_invokes info_a)"
    using 3 by simp_all
  from 2 [rule_format, of "''foo''" info_a "''bar''" info_b] 4
  have 5: "''foo'' \<in> set (si_invoked_by info_b)" by simp
  from 1 4 5 show ?thesis by (intro exI conjI) assumption+
qed

text \<open>
  C8. On a new Generator, the keys of the graph are exactly the names declared by the
  registry entries whose implementation name does not start with \<open>ignore_prefix\<close>, and
  every record that \<open>get_info\<close> returns is named by a key; so an ignored entry
  contributes no key and no record. Its name can still stand in another service's
  invokes: in the example registry \<open>zato.ping\<close> names no record and is listed in the
  invokes of \<open>foo\<close>.
\<close>

theorem ignored_entries_are_no_keys:
  "(\<exists>out g'. get_info e (Generator_init reg flt) p = Inr (out, g') \<and>
      (\<forall>n. n \<in> fst ` set (services g') \<longleftrightarrow>
            (\<exists>impl_name det. (impl_name, det) \<in> set reg \<and> \<not> startswith impl_name p \<and> d_name det = n)) \<and>
      item_name ` set out \<subseteq> fst ` set (services g')) \<and>
   map_sum id (edges_view \<circ> fst) (get_info e (Generator_init example_registry None) ''zato'') =
     Inr [(''bar'', [], [''foo'']), (''foo'', [''bar'', ''zato.ping''], [])]"
proof -
  from get_info_new [of e p reg flt] obtain svcs invs ib infos where
    svcs: "parse_services e p reg [] = Inr svcs"
    and gi: "get_info e (Generator_init reg flt) p =
       Inr (map make_item infos,
            \<lparr>service_store_services = reg, filter' = flt,
             services = assign_invoked_by ib svcs, invokes = invs, invoked_by = ib\<rparr>)"
    and infos: "map Some infos = map (map_of (assign_invoked_by ib svcs))
                        (filter (\<lambda>n. \<not> filtered_out flt n) (sort (map fst svcs)))"
    by blast
  define g' where "g' = \<lparr>service_store_services = reg, filter' = flt,
             services = assign_invoked_by ib svcs, invokes = invs, invoked_by = ib\<rparr>"
  note inv = new_generator_services [OF svcs]
  have keys: "fst ` set (services g') = (\<lambda>(impl_name, det). d_name det) ` set (retained p reg)"
    using inv(3) by (simp add: g'_def assign_invoked_by_dom)
  have 1: "\<forall>n. n \<in> fst ` set (services g') \<longleftrightarrow>
            (\<exists>impl_name det. (impl_name, det) \<in> set reg \<and> \<not> startswith impl_name p \<and> d_name det = n)"
    unfolding keys by (auto simp: retained_def)
  have names: "map si_name infos = filter (\<lambda>n. \<not> filtered_out flt n) (sort (map fst svcs))"
    using names_of_lookups [OF infos assign_invoked_by_names [OF inv(2)]] .
  have "item_name ` set (map make_item infos) = set (map item_name (map make_item infos))"
    by (simp only: set_map)
  also have "\<dots> \<subseteq> fst ` set svcs"
    unfolding item_name_make_item names by auto
  finally have 2: "item_name ` set (map make_item infos) \<subseteq> fst ` set (services g')"
    by (simp add: g'_def assign_invoked_by_dom)
  have general: "\<exists>out g'. get_info e (Generator_init reg flt) p = Inr (out, g') \<and>
      (\<forall>n. n \<in> fst ` set (services g') \<longleftrightarrow>
            (\<exists>impl_name det. (impl_name, det) \<in> set reg \<and> \<not> startswith impl_name p \<and> d_name det = n)) \<and>
      item_name ` set out \<subseteq> fst ` set (services g')"
    using gi [folded g'_def] 1 2 by (intro exI conjI) assumption+
  have example: "map_sum id (edges_view \<circ> fst) (get_info e (Generator_init example_registry None) ''zato'') =
     Inr [(''bar'', [], [''foo'']), (''foo'', [''bar'', ''zato.ping''], [])]"
    by (simp add: get_info_def parse_def then_do_def Generator_init_def example_registry_def
        example_class_def ServiceInfo_init_def ServiceInfo_parse_def set_summary_desc_def set_config_def
        add_simple_io_def add_services_from_invokes_def startswith_def setdefault_append_def
        assign_invoked_by_def filtered_out_def make_item_def edges_view_def Let_def)
  from general example show ?thesis by (rule conjI)
qed

theorem ignored_entries_are_no_keys_witness:
  "\<exists>out g'. get_info example_env (Generator_init example_registry None) ''zato'' = Inr (out, g') \<and>
     ''zato.ping'' \<notin> fst ` set (services g') \<and> ''zato.ping'' \<notin> item_name ` set out \<and>
     ''foo'' \<in> fst ` set (services g')"
proof -
  have a: "\<not> (\<exists>impl_name det. (impl_name, det) \<in> set example_registry \<and>
             \<not> startswith impl_name ''zato'' \<and> d_name det = ''zato.ping'')"
    by (auto simp: example_registry_def startswith_def)
  have b: "\<exists>impl_name det. (impl_name, det) \<in> set example_registry \<and>
             \<not> startswith impl_name ''zato'' \<and> d_name det = ''foo''"
    by (rule exI [of _ "''pkg.Foo''"],
        rule exI [of _ "\<lparr>d_name = ''foo'', d_service_class = example_class (Invokes_seq [''bar'', ''zato.ping'']) None\<rparr>"])
       (simp add: example_registry_def startswith_def)
  from ignored_entries_are_no_keys [of example_env example_registry None "''zato''", THEN conjunct1]
  obtain out g' where
    1: "get_info example_env (Generator_init example_registry None) ''zato'' = Inr (out, g')"
    and 2: "\<forall>n. n \<in> fst ` set (services g') \<longleftrightarrow>
            (\<exists>impl_name det. (impl_name, det) \<in> set example_registry \<and> \<not> startswith impl_name ''zato'' \<and> d_name det = n)"
    and 3: "item_name ` set out \<subseteq> fst ` set (services g')"
    by (elim exE conjE)
  have 4: "''zato.ping'' \<notin> fst ` set (services g')"
    using a 2 [rule_format, of "''zato.ping''"] by (rule_tac notI) (erule notE, erule iffD1 [rotated])
  have 5: "''foo'' \<in> fst ` set (services g')"
    using b 2 [rule_format, of "''foo''"] by (rule iffD2 [rotated])
  from 3 4 have 6: "''zato.ping'' \<notin> item_name ` set out"
    by (rule_tac notI) (erule notE, erule subsetD)
  from 1 4 6 5 show ?thesis by (intro exI conjI) assumption+
qed

text \<open>
  In the other direction the edge arrays stay inside the graph: every name in an
  invoked_by array that a new Generator returns is a key, since the sources are taken
  from the retained services only.
\<close>

lemma invoked_by_lists_only_keys:
  "\<exists>out g'. get_info e (Generator_init reg flt) p = Inr (out, g') \<and>
     (\<forall>r \<in> set out. set (item_invoked_by r) \<subseteq> fst ` set (services g'))"
proof -
  from get_info_new [of e p reg flt] obtain svcs invs ib infos where
    svcs: "parse_services e p reg [] = Inr svcs"
    and invs: "invs = parse_invokes svcs []" and ib: "ib = parse_invoked_by invs []"
    and gi: "get_info e (Generator_init reg flt) p =
       Inr (map make_item infos,
            \<lparr>service_store_services = reg, filter' = flt,
             services = assign_invoked_by ib svcs, invokes = invs, invoked_by = ib\<rparr>)"
    and infos: "map Some infos = map (map_of (assign_invoked_by ib svcs))
                        (filter (\<lambda>n. \<not> filtered_out flt n) (sort (map fst svcs)))"
    by blast
  define g' where "g' = \<lparr>service_store_services = reg, filter' = flt,
             services = assign_invoked_by ib svcs, invokes = invs, invoked_by = ib\<rparr>"
  have sources: "s \<in> fst ` set svcs" if "has_edge ib t s" for t s
  proof -
    from parse_invoked_by_sources [OF that [unfolded ib]]
    have "s \<in> fst ` set invs" by (simp add: has_edge_def)
    then show ?thesis by (simp add: invs parse_invokes_keys)
  qed
  have "set (si_invoked_by i) \<subseteq> fst ` set svcs" if "i \<in> set infos" for i
  proof -
    from that have "Some i \<in> set (map Some infos)" by simp
    then obtain n where n: "map_of (assign_invoked_by ib svcs) n = Some i"
      unfolding infos by auto
    then have "si_invoked_by i = (case map_of ib n of Some xs \<Rightarrow> xs | None \<Rightarrow> [])"
      by (auto simp: assign_invoked_by_lookup)
    then show ?thesis
      using sources [of n] by (auto simp: has_edge_def split: option.splits)
  qed
  then have "\<forall>r \<in> set (map make_item infos). set (item_invoked_by r) \<subseteq> fst ` set (services g')"
    by (auto simp: make_item_def g'_def assign_invoked_by_dom)
  with gi [folded g'_def] show ?thesis by (intro exI conjI) assumption+
qed

subsection \<open>get_info\<close>

text \<open>
  C5. Without a filter, \<open>get_info\<close> on a new Generator returns its records sorted by
  name (and with pairwise different names), and in every record the invokes and the
  invoked_by arrays are sorted.
\<close>

theorem get_info_sorted:
  "\<exists>out g'. get_info e (Generator_init reg None) p = Inr (out, g') \<and>
     sorted (map item_name out) \<and> distinct (map item_name out) \<and>
     (\<forall>r \<in> set out. sorted (item_invokes r) \<and> sorted (item_invoked_by r))"
proof -
  from get_info_new [of e p reg None] obtain svcs invs ib infos where
    svcs: "parse_services e p reg [] = Inr svcs"
    and gi: "get_info e (Generator_init reg None) p =
       Inr (map make_item infos,
            \<lparr>service_store_services = reg, filter' = None,
             services = assign_invoked_by ib svcs, invokes = invs, invoked_by = ib\<rparr>)"
    and infos: "map Some infos = map (map_of (assign_invoked_by ib svcs))
                        (filter (\<lambda>n. \<not> filtered_out None n) (sort (map fst svcs)))"
    by blast
  note inv = new_generator_services [OF svcs]
  have names: "map si_name infos = sort (map fst svcs)"
    using names_of_lookups [OF infos assign_invoked_by_names [OF inv(2)]]
    by (simp add: filtered_out_falsy)
  have 1: "sorted (map item_name (map make_item infos))"
    unfolding item_name_make_item names by simp
  have 2: "distinct (map item_name (map make_item infos))"
    unfolding item_name_make_item names using inv(1) by simp
  have 3: "\<forall>r \<in> set (map make_item infos). sorted (item_invokes r) \<and> sorted (item_invoked_by r)"
    by (auto simp: make_item_def)
  from gi 1 2 3 show ?thesis by (intro exI conjI) assumption+
qed

theorem get_info_sorted_witness:
  "\<exists>out g'. get_info example_env (Generator_init example_registry None) ''zato'' = Inr (out, g') \<and>
     sorted (map item_name out) \<and> distinct (map item_name out) \<and>
     edges_view out = [(''bar'', [], [''foo'']), (''foo'', [''bar'', ''zato.ping''], [])]"
proof -
  from get_info_sorted [of example_env example_registry "''zato''"] obtain out g' where
    1: "get_info example_env (Generator_init example_registry None) ''zato'' = Inr (out, g')"
    and 2: "sorted (map item_name out)" "distinct (map item_name out)"
    by (elim exE conjE)
  have "map_sum id (edges_view \<circ> fst) (get_info example_env (Generator_init example_registry None) ''zato'') =
     Inr [(''bar'', [], [''foo'']), (''foo'', [''bar'', ''zato.ping''], [])]"
    by (simp add: get_info_def parse_def then_do_def Generator_init_def example_registry_def
        example_class_def ServiceInfo_init_def ServiceInfo_parse_def set_summary_desc_def set_config_def
        add_simple_io_def add_services_from_invokes_def startswith_def setdefault_append_def
        assign_invoked_by_def filtered_out_def make_item_def edges_view_def Let_def)
  with 1 have 3: "edges_view out = [(''bar'', [], [''foo'']), (''foo'', [''bar'', ''zato.ping''], [])]"
    by simp
  from 1 2 3 show ?thesis by (intro exI conjI) assumption+
qed

text \<open>
  C10. A Generator constructed with the empty string as filter returns the same records
  as one constructed without a filter: one record for every retained name.
\<close>

theorem empty_filter_is_no_filter:
  "\<exists>out g1 g2. get_info e (Generator_init reg (Some [])) p = Inr (out, g1) \<and>
     get_info e (Generator_init reg None) p = Inr (out, g2) \<and>
     item_name ` set out = (\<lambda>(impl_name, det). d_name det) ` set (retained p reg)"
proof -
  from get_info_new [of e p reg None] obtain svcs invs ib infos where
    svcs: "parse_services e p reg [] = Inr svcs"
    and invs: "invs = parse_invokes svcs []" and ib: "ib = parse_invoked_by invs []"
    and gi: "get_info e (Generator_init reg None) p =
       Inr (map make_item infos,
            \<lparr>service_store_services = reg, filter' = None,
             services = assign_invoked_by ib svcs, invokes = invs, invoked_by = ib\<rparr>)"
    and infos: "map Some infos = map (map_of (assign_invoked_by ib svcs))
                        (filter (\<lambda>n. \<not> filtered_out None n) (sort (map fst svcs)))"
    by blast
  from get_info_new [of e p reg "Some []"] obtain svcs' invs' ib' infos' where
    svcs': "parse_services e p reg [] = Inr svcs'"
    and invs': "invs' = parse_invokes svcs' []" and ib': "ib' = parse_invoked_by invs' []"
    and gi': "get_info e (Generator_init reg (Some [])) p =
       Inr (map make_item infos',
            \<lparr>service_store_services = reg, filter' = Some [],
             services = assign_invoked_by ib' svcs', invokes = invs', invoked_by = ib'\<rparr>)"
    and infos': "map Some infos' = map (map_of (assign_invoked_by ib' svcs'))
                        (filter (\<lambda>n. \<not> filtered_out (Some []) n) (sort (map fst svcs')))"
    by blast
  have same: "svcs' = svcs" "invs' = invs" "ib' = ib"
    using svcs svcs' invs invs' ib ib' by simp_all
  have "map Some infos' = map Some infos"
    using infos infos' by (simp add: same filtered_out_falsy)
  then have eq: "infos' = infos"
    by (simp add: inj_map_eq_map)
  note inv = new_generator_services [OF svcs]
  have names: "map si_name infos = sort (map fst svcs)"
    using names_of_lookups [OF infos assign_invoked_by_names [OF inv(2)]]
    by (simp add: filtered_out_falsy)
  have "item_name ` set (map make_item infos) = set (map item_name (map make_item infos))"
    by (simp only: set_map)
  also have "\<dots> = fst ` set svcs"
    unfolding item_name_make_item names by simp
  finally have 3: "item_name ` set (map make_item infos) =
      (\<lambda>(impl_name, det). d_name det) ` set (retained p reg)"
    using inv(3) by simp
  from gi' [unfolded eq] gi 3 show ?thesis by (intro exI conjI) assumption+
qed

theorem empty_filter_is_no_filter_witness:
  "\<exists>out g1 g2. get_info example_env (Generator_init example_registry (Some [])) ''zato'' = Inr (out, g1) \<and>
     get_info example_env (Generator_init example_registry None) ''zato'' = Inr (out, g2) \<and>
     item_name ` set out = {''foo'', ''bar''}"
proof -
  have eq: "(\<lambda>(impl_name, det). d_name det) ` set (retained ''zato'' example_registry) = {''foo'', ''bar''}"
    by (simp add: retained_def example_registry_def startswith_def)
  show ?thesis
    using empty_filter_is_no_filter [of example_env example_registry "''zato''"]
    unfolding eq .
qed

text \<open>
  C1. The claim asks that a second call on the same Generator returns what the first
  returned. The dict \<open>invoked_by\<close> is created once in \<open>__init__\<close> and \<open>parse\<close> appends to
  its lists on every call, so the second call on the example registry lists \<open>foo\<close> twice
  as an invoker of \<open>bar\<close>, where the first call listed it once.
\<close>

theorem second_get_info_repeats_invokers:
  "map_sum id (map_prod edges_view edges_view)
     (get_info_twice e (Generator_init example_registry None) ''zato'') =
   Inr ([(''bar'', [], [''foo'']), (''foo'', [''bar'', ''zato.ping''], [])],
        [(''bar'', [], [''foo'', ''foo'']), (''foo'', [''bar'', ''zato.ping''], [])])"
  by (simp add: get_info_twice_def get_info_def parse_def then_do_def Generator_init_def example_registry_def
        example_class_def ServiceInfo_init_def ServiceInfo_parse_def set_summary_desc_def set_config_def
        add_simple_io_def add_services_from_invokes_def startswith_def setdefault_append_def
        assign_invoked_by_def filtered_out_def make_item_def edges_view_def Let_def)

end
